theory Spec2Isabelle
  imports Complex_Main "HOL-Library.Log_Nat"
begin

section \<open>JavaScript numbers\<close>

text \<open>
  A JavaScript number is an IEEE 754 double. The finite ones are rationals, and every
  arithmetic operation returns the exact result rounded to the nearest double, ties to
  the even significand. \<open>fl\<close> is that rounding for a significand of 53 bits. The exponent
  range is not modelled (no overflow to infinity, no subnormals: the pixel quantities of
  this program are far from both ends), and the two zeros are identified; every divisor
  of the program that can be zero is a sum of array lengths, which is \<open>+0\<close>.
\<close>

definition round_even :: "rat \<Rightarrow> int" where
  "round_even m =
     (let n = \<lfloor>m\<rfloor>; d = m - of_int n
      in if d < 1 / 2 then n else if 1 / 2 < d then n + 1 else if even n then n else n + 1)"

text \<open>The binade of a positive rational: \<open>2 powi ilog2 x \<le> x < 2 powi (ilog2 x + 1)\<close>.\<close>

definition ilog2 :: "rat \<Rightarrow> int" where
  "ilog2 x = (if 1 \<le> x then bitlen \<lfloor>x\<rfloor> - 1 else - bitlen (\<lceil>1 / x\<rceil> - 1))"

definition fl :: "rat \<Rightarrow> rat" where
  "fl x =
     (if x = 0 then 0
      else let s = (2::rat) powi (ilog2 \<bar>x\<bar> - 52)
           in sgn x * of_int (round_even (\<bar>x\<bar> / s)) * s)"

datatype jsnum = Fin rat | PInf | NInf | NaN

fun js_neg :: "jsnum \<Rightarrow> jsnum" where
  "js_neg (Fin a) = Fin (- a)"
| "js_neg PInf = NInf"
| "js_neg NInf = PInf"
| "js_neg NaN = NaN"

fun js_add :: "jsnum \<Rightarrow> jsnum \<Rightarrow> jsnum" where
  "js_add (Fin a) (Fin b) = Fin (fl (a + b))"
| "js_add NaN _ = NaN"
| "js_add _ NaN = NaN"
| "js_add PInf NInf = NaN"
| "js_add NInf PInf = NaN"
| "js_add PInf _ = PInf"
| "js_add NInf _ = NInf"
| "js_add _ PInf = PInf"
| "js_add _ NInf = NInf"

definition js_sub :: "jsnum \<Rightarrow> jsnum \<Rightarrow> jsnum" where
  "js_sub a b = js_add a (js_neg b)"

text \<open>The sign of a product or quotient with an infinite operand.\<close>

fun js_sign :: "jsnum \<Rightarrow> int" where
  "js_sign (Fin a) = (if a < 0 then - 1 else if 0 < a then 1 else 0)"
| "js_sign PInf = 1"
| "js_sign NInf = - 1"
| "js_sign NaN = 0"

definition js_inf :: "int \<Rightarrow> jsnum" where
  "js_inf s = (if 0 < s then PInf else if s < 0 then NInf else NaN)"

fun js_mul :: "jsnum \<Rightarrow> jsnum \<Rightarrow> jsnum" where
  "js_mul (Fin a) (Fin b) = Fin (fl (a * b))"
| "js_mul NaN _ = NaN"
| "js_mul _ NaN = NaN"
| "js_mul a b = js_inf (js_sign a * js_sign b)"

fun js_div :: "jsnum \<Rightarrow> jsnum \<Rightarrow> jsnum" where
  "js_div (Fin a) (Fin b) = (if b = 0 then js_inf (js_sign (Fin a)) else Fin (fl (a / b)))"
| "js_div NaN _ = NaN"
| "js_div _ NaN = NaN"
| "js_div (Fin a) _ = Fin 0"
| "js_div a (Fin b) = js_inf (js_sign a * (if b < 0 then - 1 else 1))"
| "js_div _ _ = NaN"

fun js_lt :: "jsnum \<Rightarrow> jsnum \<Rightarrow> bool" where
  "js_lt (Fin a) (Fin b) = (a < b)"
| "js_lt NaN _ = False"
| "js_lt _ NaN = False"
| "js_lt NInf b = (b \<noteq> NInf)"
| "js_lt a PInf = (a \<noteq> PInf)"
| "js_lt _ _ = False"

fun js_floor :: "jsnum \<Rightarrow> jsnum" where
  "js_floor (Fin a) = Fin (of_int \<lfloor>a\<rfloor>)"
| "js_floor a = a"

text \<open>An array length, or another integer-valued expression over array lengths, as a number.
  Array lengths are below \<open>2 ^ 32\<close>, so these integers are doubles and their sums,
  differences and products by 25 are exact.\<close>

definition js_int :: "int \<Rightarrow> jsnum" where
  "js_int k = Fin (of_int k)"

text \<open>The remainder \<open>a % b\<close> takes the sign of the dividend; it is exact.\<close>

fun js_rem :: "jsnum \<Rightarrow> jsnum \<Rightarrow> jsnum" where
  "js_rem (Fin a) (Fin b) =
     (if b = 0 then NaN
      else Fin (a - b * of_int (if a / b < 0 then \<lceil>a / b\<rceil> else \<lfloor>a / b\<rfloor>)))"
| "js_rem NaN _ = NaN"
| "js_rem _ NaN = NaN"
| "js_rem (Fin a) _ = Fin a"
| "js_rem _ _ = NaN"

text \<open>Decimal digits of an integer, as string concatenation prints a number that has
  an integer value (below \<open>10 ^ 21\<close> in size; every component printed by this program is
  the floor of a colour channel).\<close>

fun digits :: "nat \<Rightarrow> string" where
  "digits n =
     (if n < 10 then [''0123456789'' ! n] else digits (n div 10) @ [''0123456789'' ! (n mod 10)])"

declare digits.simps [simp del]

fun js_to_string :: "jsnum \<Rightarrow> string" where
  "js_to_string (Fin a) =
     (if a < 0 then CHR ''-'' # digits (nat (- \<lfloor>a\<rfloor>)) else digits (nat \<lfloor>a\<rfloor>))"
| "js_to_string PInf = ''Infinity''"
| "js_to_string NInf = ''-Infinity''"
| "js_to_string NaN = ''NaN''"

section \<open>graphBuilderHost.js: the colour palette\<close>

text \<open>
  \<open>HSVtoRGB(h, s, v)\<close> called with three numbers (the object overload of its first lines
  is taken only when \<open>s\<close> and \<open>v\<close> are \<open>undefined\<close>). Where no \<open>case\<close> of the
  \<open>switch\<close> matches, \<open>r\<close>, \<open>g\<close> and \<open>b\<close> stay \<open>undefined\<close>, and
  \<open>undefined * 255\<close> is \<open>NaN\<close>.
\<close>

definition HSVtoRGB :: "jsnum \<Rightarrow> jsnum \<Rightarrow> jsnum \<Rightarrow> string" where
  "HSVtoRGB h s v =
     (let i = js_floor (js_mul h (Fin 6));
          f = js_sub (js_mul h (Fin 6)) i;
          p = js_mul v (js_sub (Fin 1) s);
          q = js_mul v (js_sub (Fin 1) (js_mul f s));
          t = js_mul v (js_sub (Fin 1) (js_mul (js_sub (Fin 1) f) s));
          k = js_rem i (Fin 6);
          (r, g, b) =
            (if k = Fin 0 then (js_mul v (Fin 255), js_mul t (Fin 255), js_mul p (Fin 255))
             else if k = Fin 1 then (js_mul q (Fin 255), js_mul v (Fin 255), js_mul p (Fin 255))
             else if k = Fin 2 then (js_mul p (Fin 255), js_mul v (Fin 255), js_mul t (Fin 255))
             else if k = Fin 3 then (js_mul p (Fin 255), js_mul q (Fin 255), js_mul v (Fin 255))
             else if k = Fin 4 then (js_mul t (Fin 255), js_mul p (Fin 255), js_mul v (Fin 255))
             else if k = Fin 5 then (js_mul v (Fin 255), js_mul p (Fin 255), js_mul q (Fin 255))
             else (NaN, NaN, NaN))
      in ''rgb('' @ js_to_string (js_floor r) @ '','' @ js_to_string (js_floor g) @ '',''
           @ js_to_string (js_floor b) @ '')'')"

text \<open>The literals \<open>.4\<close> and \<open>.8\<close> are the doubles nearest to 2/5 and 4/5.\<close>

definition palette_color :: "int \<Rightarrow> string" where
  "palette_color i =
     HSVtoRGB (js_add (js_div (js_int i) (Fin 9)) (Fin (fl (2 / 5)))) (Fin (fl (2 / 5)))
       (Fin (fl (4 / 5)))"

text \<open>The loop \<open>for (var i = 9; i > 0; i--) colors.push(...)\<close> at the end of the script,
  from any start value.\<close>

function palette_loop :: "int \<Rightarrow> string list \<Rightarrow> string list" where
  "palette_loop i colors =
     (if 0 < i then palette_loop (i - 1) (colors @ [palette_color i]) else colors)"
  by pat_completeness auto
termination
  by (relation "measure (\<lambda>(i, colors). nat i)") auto

declare palette_loop.simps [simp del]

definition initial_colors :: "string list" where
  "initial_colors = palette_loop 9 []"

section \<open>graphBuilderHost.js: hosts of the graph builder\<close>

text \<open>
  An element of the drawing surface is known by its identity; \<open>SVGElement(tag)\<close> makes a
  new one. The page state the constructor reads and writes: the static stack
  \<open>GraphBuilderHost.colors\<close> (\<open>push\<close> and \<open>pop\<close> work at the end of the array), the
  \<open>disabled\<close> attribute and the background of the \<open>.add\<close> button, and the children of
  the builder's SVG, first child first.
\<close>

type_synonym elem = nat

record node =
  circle :: elem
  lines :: "elem list"

record host =
  host_rx :: jsnum
  host_x :: jsnum
  host_color :: string
  nodes :: "node list"
  host_rect :: elem
  host_line :: elem

record page =
  colors :: "string list"
  add_disabled :: bool
  add_background :: string
  surface :: "elem list"
  next_elem :: elem

text \<open>
  \<open>new GraphBuilderHost(graphBuilder, hostNum)\<close>. \<open>None\<close> is the object the early
  \<open>return\<close> leaves behind: it has its \<open>graphBuilder\<close> and nothing else (no colour, no
  node list, no square, no line). With an empty stack left after the \<open>pop\<close>, the last
  statement passes \<open>undefined\<close> to \<open>css\<close>, which then sets nothing.
\<close>

definition GraphBuilderHost :: "page \<Rightarrow> int \<Rightarrow> host option \<times> page" where
  "GraphBuilderHost pg hostNum =
     (if length (colors pg) = 0 then (None, pg)
      else
        let pg1 = (if length (colors pg) = 1 then pg\<lparr>add_disabled := True\<rparr> else pg);
            rx' = js_mul (js_int hostNum) (Fin 65);
            x' = js_add rx' (Fin (25 / 2));
            color' = last (colors pg1);
            pg2 = pg1\<lparr>colors := butlast (colors pg1)\<rparr>;
            rect' = next_elem pg2;
            pg3 = pg2\<lparr>surface := rect' # surface pg2, next_elem := rect' + 1\<rparr>;
            line' = next_elem pg3;
            pg4 = pg3\<lparr>surface := line' # surface pg3, next_elem := line' + 1\<rparr>;
            pg5 = (if colors pg4 = [] then pg4
                   else pg4\<lparr>add_background := last (colors pg4)\<rparr>)
        in (Some \<lparr>host_rx = rx', host_x = x', host_color = color', nodes = [],
                 host_rect = rect', host_line = line'\<rparr>,
            pg5))"

text \<open>Hosts made one after the other, each from the page the one before left.\<close>

fun new_hosts :: "page \<Rightarrow> int list \<Rightarrow> host option list \<times> page" where
  "new_hosts pg [] = ([], pg)"
| "new_hosts pg (k # ks) =
     (let (h, pg1) = GraphBuilderHost pg k; (hs, pg2) = new_hosts pg1 ks in (h # hs, pg2))"

text \<open>
  \<open>addNode\<close>: the node is made by \<open>GraphBuilderNode\<close>, which is not part of this file, so
  the finished node is an argument here. \<open>convert\<close> and \<open>bind\<close> belong to the graph
  builder and do not touch the host.
\<close>

definition addNode :: "host \<Rightarrow> node \<Rightarrow> host \<times> node" where
  "addNode h n = (h\<lparr>nodes := nodes h @ [n]\<rparr>, n)"

text \<open>
  What an array of a host can be asked about: a node, or the host itself (known by its
  square). \<open>Array.remove\<close> is not a function of the language and is defined outside this
  file; it is the parameter \<open>Array_remove\<close> of \<open>removeNode\<close> and \<open>removeAllNodes\<close>.
\<close>

datatype obj = NodeObj node | HostObj elem

fun node_objs :: "obj list \<Rightarrow> node list" where
  "node_objs [] = []"
| "node_objs (NodeObj n # os) = n # node_objs os"
| "node_objs (HostObj e # os) = node_objs os"

definition remove_elems :: "elem list \<Rightarrow> elem list \<Rightarrow> elem list" where
  "remove_elems es sf = filter (\<lambda>e. e \<notin> set es) sf"

text \<open>\<open>removeNode(node)\<close>: the second argument of \<open>Array.remove\<close> is \<open>this\<close>, the host.\<close>

definition removeNode ::
  "(obj list \<Rightarrow> obj \<Rightarrow> obj list) \<Rightarrow> host \<times> page \<Rightarrow> node \<Rightarrow> host \<times> page" where
  "removeNode Array_remove hp n =
     (case hp of (h, pg) \<Rightarrow>
        let pg1 = pg\<lparr>surface := remove_elems (lines n) (surface pg)\<rparr>;
            h1 = h\<lparr>nodes := node_objs (Array_remove (map NodeObj (nodes h)) (HostObj (host_rect h)))\<rparr>;
            pg2 = pg1\<lparr>surface := remove_elems [circle n] (surface pg1)\<rparr>
        in (h1, pg2))"

text \<open>
  The loop of \<open>removeAllNodes\<close>, which reads \<open>this.nodes\<close> and its length again at
  every turn. It also returns the nodes it has passed to \<open>removeNode\<close>, in order. With an
  \<open>Array.remove\<close> that makes the array longer the loop would not end: \<open>None\<close>.
\<close>

partial_function (option) removeAllNodes_loop ::
  "(obj list \<Rightarrow> obj \<Rightarrow> obj list) \<Rightarrow> nat \<Rightarrow> host \<times> page \<Rightarrow> node list
     \<Rightarrow> ((host \<times> page) \<times> node list) option" where
  "removeAllNodes_loop Array_remove i hp visited =
     (if i < length (nodes (fst hp))
      then removeAllNodes_loop Array_remove (i + 1)
             (removeNode Array_remove hp (nodes (fst hp) ! i)) (visited @ [nodes (fst hp) ! i])
      else Some (hp, visited))"

definition removeAllNodes ::
  "(obj list \<Rightarrow> obj \<Rightarrow> obj list) \<Rightarrow> host \<times> page \<Rightarrow> ((host \<times> page) \<times> node list) option" where
  "removeAllNodes Array_remove hp =
     (case removeAllNodes_loop Array_remove 0 hp [] of
        None \<Rightarrow> None
      | Some ((h, pg), visited) \<Rightarrow> Some ((h\<lparr>nodes := []\<rparr>, pg), visited))"

section \<open>global.js: the singleton\<close>

datatype error = Exception | TypeError

text \<open>
  A view as \<open>Global\<close> sees it: \<open>getHosts()\<close>, \<open>getTransformer().getHiddenHosts()\<close> and the
  width that \<open>setWidth\<close> stores. A host is known by its name. The host permutation gives
  \<open>getHosts()\<close> and \<open>getHostColor(host)\<close>.
\<close>

record view =
  view_hosts :: "string list"
  view_hidden :: "string list"
  view_width :: jsnum

record host_permutation =
  perm_hosts :: "string list"
  perm_color :: "string \<Rightarrow> string"

record global =
  views :: "view list"
  hostPermutation :: "host_permutation option"
  hiddenHosts :: "string list option"

text \<open>
  The objects that \<open>new Global()\<close> has made so far, in order, and the static field
  \<open>Global.instance\<close>, which is \<open>null\<close> or refers to one of them by its position. The field
  \<open>hiddenHosts\<close> of an object does not exist before \<open>revert\<close> sets it.
\<close>

record process =
  made :: "global list"
  Global_instance :: "nat option"

definition Global :: "process \<Rightarrow> error + nat \<times> process" where
  "Global ps =
     (if Global_instance ps \<noteq> None then Inl Exception
      else Inr (length (made ps),
             ps\<lparr>made := made ps @ [\<lparr>views = [], hostPermutation = None, hiddenHosts = None\<rparr>]\<rparr>))"

definition getInstance :: "process \<Rightarrow> error + nat \<times> process" where
  "getInstance ps =
     (case Global_instance ps of
        None \<Rightarrow>
          (case Global ps of
             Inl e \<Rightarrow> Inl e
           | Inr (r, ps1) \<Rightarrow> Inr (r, ps1\<lparr>Global_instance := Some r\<rparr>))
      | Some r \<Rightarrow> Inr (r, ps))"

definition initial_process :: process where
  "initial_process = \<lparr>made = [], Global_instance = None\<rparr>"

text \<open>\<open>getInstance()\<close> called \<open>n\<close> times in a row; the references returned, in order.\<close>

fun getInstance_times :: "nat \<Rightarrow> process \<Rightarrow> error + nat list \<times> process" where
  "getInstance_times 0 ps = Inr ([], ps)"
| "getInstance_times (Suc n) ps =
     (case getInstance ps of
        Inl e \<Rightarrow> Inl e
      | Inr (r, ps1) \<Rightarrow>
          (case getInstance_times n ps1 of
             Inl e \<Rightarrow> Inl e
           | Inr (rs, ps2) \<Rightarrow> Inr (r # rs, ps2)))"

definition SIDE_BAR_WIDTH :: int where
  "SIDE_BAR_WIDTH = 240"

definition HOST_SQUARE_SIZE :: int where
  "HOST_SQUARE_SIZE = 25"

definition revert :: "global \<Rightarrow> global" where
  "revert g = g\<lparr>views := [], hostPermutation := None, hiddenHosts := Some []\<rparr>"

definition setHostPermutation :: "global \<Rightarrow> host_permutation \<Rightarrow> global" where
  "setHostPermutation g p = g\<lparr>hostPermutation := Some p\<rparr>"

text \<open>
  \<open>getHiddenHosts\<close> fills a fresh plain object \<open>{}\<close> with one key per hidden host and
  returns it as a set. The object is the list of its own keys in the order in which
  \<open>Object.keys\<close> lists them: the keys that are array indices (the decimal numeral, without
  leading zeros, of an integer below \<open>2 ^ 32 - 1\<close>) first, in ascending order, then the
  other keys in the order they were first set.
\<close>

definition is_digit :: "char \<Rightarrow> bool" where
  "is_digit c = (c \<in> set ''0123456789'')"

definition digit_value :: "char \<Rightarrow> nat" where
  "digit_value c = length (takeWhile (\<lambda>d. d \<noteq> c) ''0123456789'')"

definition array_index :: "string \<Rightarrow> int option" where
  "array_index s =
     (if s \<noteq> [] \<and> list_all is_digit s \<and> (if s = ''0'' then True else hd s \<noteq> CHR ''0'')
      then (let n = foldl (\<lambda>v c. 10 * v + int (digit_value c)) 0 s
            in if n < 2 ^ 32 - 1 then Some n else None)
      else None)"

fun insert_index :: "int \<Rightarrow> string \<Rightarrow> string list \<Rightarrow> string list" where
  "insert_index n h [] = [h]"
| "insert_index n h (k # ks) =
     (case array_index k of
        Some m \<Rightarrow> if m < n then k # insert_index n h ks else h # k # ks
      | None \<Rightarrow> h # k # ks)"

text \<open>
  The assignment \<open>hiddenHosts[host] = true\<close>. A key that is there stays where it is. The
  name \<open>__proto__\<close> is an accessor that every object inherits, and its setter ignores a
  value that is not an object: the assignment then adds no key.
\<close>

definition set_key :: "string list \<Rightarrow> string \<Rightarrow> string list" where
  "set_key ks h =
     (if h = ''__proto__'' then ks
      else if h \<in> set ks then ks
      else case array_index h of Some n \<Rightarrow> insert_index n h ks | None \<Rightarrow> ks @ [h])"

text \<open>
  The members that a plain object inherits from \<open>Object.prototype\<close>; the value of each is
  a function or, for \<open>__proto__\<close>, the prototype itself. The test \<open>hiddenHosts[h]\<close> of
  \<open>resize\<close> reads an own key, which is \<open>true\<close>, or else an inherited member: \<open>has_value\<close>
  says that what it reads is not \<open>undefined\<close>.
\<close>

definition Object_prototype :: "string list" where
  "Object_prototype =
     [''constructor'', ''__defineGetter__'', ''__defineSetter__'', ''hasOwnProperty'',
      ''__lookupGetter__'', ''__lookupSetter__'', ''isPrototypeOf'', ''propertyIsEnumerable'',
      ''toString'', ''valueOf'', ''__proto__'', ''toLocaleString'']"

definition has_value :: "string list \<Rightarrow> string \<Rightarrow> bool" where
  "has_value ks h = (h \<in> set ks \<or> h \<in> set Object_prototype)"

definition getHiddenHosts :: "global \<Rightarrow> string list" where
  "getHiddenHosts g = fold (\<lambda>view ks. fold (\<lambda>host ks. set_key ks host) (view_hidden view) ks) (views g) []"

subsection \<open>resize\<close>

text \<open>The three widths \<open>resize\<close> reads from the page.\<close>

record widths =
  window_width :: rat
  header_outer_width :: rat
  sidebar_outer_width :: rat

text \<open>
  Lines 186 to 193: from \<open>visibleHosts\<close>, \<open>this.views.length\<close> and \<open>middleWidth\<close> to
  \<open>middleWidth\<close>, \<open>totalMargin\<close> and \<open>hostMargin\<close> after the \<open>if\<close>.
\<close>

definition resize_margin :: "int \<Rightarrow> nat \<Rightarrow> jsnum \<Rightarrow> jsnum \<times> jsnum \<times> jsnum" where
  "resize_margin visibleHosts nviews middleWidth =
     (let totalMargin = js_sub middleWidth (js_int (visibleHosts * HOST_SQUARE_SIZE));
          hostMargin = js_div totalMargin (js_int (visibleHosts + int nviews - 2))
      in if js_lt hostMargin (js_int HOST_SQUARE_SIZE)
         then
           let hostMargin1 = js_int HOST_SQUARE_SIZE;
               totalMargin1 = js_mul hostMargin1 (js_int (visibleHosts + int nviews - 2));
               middleWidth1 = js_add totalMargin1 (js_int (visibleHosts * HOST_SQUARE_SIZE))
           in (middleWidth1, totalMargin1, hostMargin1)
         else (middleWidth, totalMargin, hostMargin))"

text \<open>Lines 195 to 200: \<open>widthPerHost\<close> and \<open>hostMargin\<close> after the second \<open>if\<close>.\<close>

definition resize_width :: "int \<Rightarrow> jsnum \<Rightarrow> jsnum \<Rightarrow> jsnum \<times> jsnum" where
  "resize_width visibleHosts middleWidth hostMargin =
     (let widthPerHost = js_add (js_int HOST_SQUARE_SIZE) hostMargin
      in if visibleHosts = 1 then (middleWidth, Fin 0) else (widthPerHost, hostMargin))"

text \<open>
  What a call of \<open>resize\<close> leaves: the views with their new widths, the width given to
  \<open>#graph\<close>, the value returned (the last \<open>hostMargin\<close>), and the last values of the
  local variables \<open>middleWidth\<close>, \<open>totalMargin\<close> and \<open>widthPerHost\<close>. With no host
  permutation set, \<open>this.hostPermutation.getHosts()\<close> throws.
\<close>

record resized =
  new_views :: "view list"
  graph_width :: jsnum
  returned :: jsnum
  middleWidth :: jsnum
  totalMargin :: jsnum
  widthPerHost :: jsnum

text \<open>The body of the \<open>forEach\<close> of \<open>resize\<close>: the filter keeps the hosts \<open>h\<close> of the view
  for which \<open>!hiddenHosts[h]\<close> holds.\<close>

definition setWidth :: "string list \<Rightarrow> jsnum \<Rightarrow> jsnum \<Rightarrow> view \<Rightarrow> view" where
  "setWidth hidden wph hostMargin view =
     (let hosts = filter (\<lambda>h. \<not> has_value hidden h) (view_hosts view)
      in view\<lparr>view_width := js_sub (js_mul (js_int (int (length hosts))) wph) hostMargin\<rparr>)"

definition resize :: "global \<Rightarrow> widths \<Rightarrow> error + resized" where
  "resize g w =
     (let hidden = getHiddenHosts g;
          numHidden = length hidden
      in case hostPermutation g of
           None \<Rightarrow> Inl TypeError
         | Some p \<Rightarrow>
             let allHosts = length (perm_hosts p);
                 visibleHosts = int allHosts - int numHidden;
                 sidebarLeft = Fin (header_outer_width w);
                 sidebarRight = Fin (sidebar_outer_width w);
                 middleWidth0 = js_sub (js_sub (Fin (window_width w)) sidebarLeft) sidebarRight;
                 (middleWidth1, totalMargin1, hostMargin1) =
                   resize_margin visibleHosts (length (views g)) middleWidth0;
                 (widthPerHost1, hostMargin2) = resize_width visibleHosts middleWidth1 hostMargin1
             in Inr \<lparr>new_views = map (setWidth hidden widthPerHost1 hostMargin2) (views g),
                       graph_width = middleWidth1,
                       returned = hostMargin2,
                       middleWidth = middleWidth1,
                       totalMargin = totalMargin1,
                       widthPerHost = widthPerHost1\<rparr>)"

text \<open>\<open>addView\<close> pushes the view and resizes; the widths of the views are those of the resize.\<close>

definition addView :: "global \<Rightarrow> widths \<Rightarrow> view \<Rightarrow> error + global" where
  "addView g w view =
     (let g1 = g\<lparr>views := views g @ [view]\<rparr>
      in case resize g1 w of Inl e \<Rightarrow> Inl e | Inr r \<Rightarrow> Inr (g1\<lparr>views := new_views r\<rparr>))"

subsection \<open>getViews\<close>

text \<open>
  Whether the caller of \<open>getViews\<close> can reach the internal list is a question of which
  array a reference points to, so for this function the arrays live in a store: an array
  is known by its position in the store, \<open>this.views\<close> holds such a position, and
  \<open>slice()\<close> makes a new array with the same elements. Elsewhere \<open>views\<close> is the content
  of that array.
\<close>

type_synonym 'v arrays = "'v list list"

definition slice :: "'v arrays \<Rightarrow> nat \<Rightarrow> nat \<times> 'v arrays" where
  "slice st a = (length st, st @ [st ! a])"

definition getViews :: "'v arrays \<Rightarrow> nat \<Rightarrow> nat \<times> 'v arrays" where
  "getViews st this_views = slice st this_views"

text \<open>
  What a caller can do to an array it holds: change its content in place into any other
  list (\<open>push\<close>, \<open>pop\<close>, \<open>splice\<close>, \<open>reverse\<close>, \<open>sort\<close>, an assignment to an index).
\<close>

definition mutate :: "nat \<Rightarrow> ('v list \<Rightarrow> 'v list) \<Rightarrow> 'v arrays \<Rightarrow> 'v arrays" where
  "mutate a f st = (if a < length st then st[a := f (st ! a)] else st)"

subsection \<open>drawSideBar\<close>

text \<open>
  The counters of \<open>drawSideBar\<close> are integers, and so are all values they take.
  \<open>selection.attr(name, f)\<close> calls \<open>f\<close> once for each square, in the order of the data;
  \<open>attr_y\<close> and \<open>attr_x\<close> are the two callbacks run over the squares, with the variables
  they share from one call to the next (\<open>count\<close> and \<open>y\<close>; \<open>x\<close>).
\<close>

definition hostsPerLine :: int where
  "hostsPerLine = \<lfloor>(of_int (SIDE_BAR_WIDTH + 5) :: rat) / of_int (HOST_SQUARE_SIZE + 5)\<rfloor>"

fun attr_y :: "int \<Rightarrow> int \<Rightarrow> 'a list \<Rightarrow> int list" where
  "attr_y count y [] = []"
| "attr_y count y (host # hosts) =
     (let count1 = count + 1;
          y1 = (if count1 > hostsPerLine then y + (HOST_SQUARE_SIZE + 5) else y);
          count2 = (if count1 > hostsPerLine then 1 else count1)
      in y1 # attr_y count2 y1 hosts)"

fun attr_x :: "int \<Rightarrow> 'a list \<Rightarrow> int list" where
  "attr_x x [] = []"
| "attr_x x (host # hosts) =
     (let x1 = x + (HOST_SQUARE_SIZE + 5);
          x2 = (if x1 + HOST_SQUARE_SIZE > SIDE_BAR_WIDTH then 0 else x1)
      in x2 # attr_x x2 hosts)"

record square =
  sq_host :: string
  sq_width :: int
  sq_height :: int
  sq_fill :: string
  sq_x :: int
  sq_y :: int

record svg =
  svg_width :: rat
  svg_height :: int
  squares :: "square list"

text \<open>
  The \<open>.hidden\<close> section after \<open>drawSideBar\<close>: shown or hidden, and the SVG in it, if any
  (the old one is removed first). The argument \<open>sidebar_width\<close> is \<open>$("#sidebar").width()\<close>.
  With hidden hosts and no host permutation, the \<open>fill\<close> callback throws.
\<close>

record sidebar =
  hidden_shown :: bool
  hidden_svg :: "svg option"

definition drawSideBar :: "global \<Rightarrow> rat \<Rightarrow> error + sidebar" where
  "drawSideBar g sidebar_width =
     (let hh = getHiddenHosts g
      in if int (length hh) \<le> 0 then Inr \<lparr>hidden_shown = False, hidden_svg = None\<rparr>
         else
           case hostPermutation g of
             None \<Rightarrow> Inl TypeError
           | Some p \<Rightarrow>
               let height =
                     \<lceil>(of_nat (length hh) :: rat) / of_int hostsPerLine\<rceil> * (HOST_SQUARE_SIZE + 5) - 5;
                   ys = attr_y 0 0 hh;
                   xs = attr_x SIDE_BAR_WIDTH hh;
                   rects =
                     map (\<lambda>(host, y, x).
                            \<lparr>sq_host = host, sq_width = HOST_SQUARE_SIZE,
                               sq_height = HOST_SQUARE_SIZE, sq_fill = perm_color p host,
                               sq_x = x, sq_y = y\<rparr>)
                       (zip hh (zip ys xs))
               in Inr \<lparr>hidden_shown = True,
                         hidden_svg =
                           Some \<lparr>svg_width = sidebar_width, svg_height = height,
                                   squares = rects\<rparr>\<rparr>)"

section \<open>Rounding to a double\<close>

text \<open>
  \<open>ilog2\<close> is the binade, \<open>fl x\<close> is within half a unit in the last place of \<open>x\<close>, and
  integers up to \<open>2 ^ 53\<close> in size are doubles.
\<close>

lemma bitlen_rat_bounds:
  assumes "0 < n"
  shows "(2::rat) powi (bitlen n - 1) \<le> of_int n" and "of_int n < (2::rat) powi (bitlen n)"
proof -
  from bitlen_bounds [OF assms] have lo: "2 ^ nat (bitlen n - 1) \<le> n" and hi: "n < 2 ^ nat (bitlen n)"
    by auto
  have b: "0 < bitlen n" using assms bitlen_nonneg [of n] bitlen_eq_zero_iff [of n] by (metis less_le not_less)
  from lo have "(of_int (2 ^ nat (bitlen n - 1)) :: rat) \<le> of_int n" by (simp only: of_int_le_iff)
  then show "(2::rat) powi (bitlen n - 1) \<le> of_int n"
    using b by (simp add: power_int_def)
  from hi have "(of_int n :: rat) < of_int (2 ^ nat (bitlen n))" by (simp only: of_int_less_iff)
  then show "of_int n < (2::rat) powi (bitlen n)"
    using b by (simp add: power_int_def)
qed

lemma ilog2_bounds:
  assumes "0 < x"
  shows "(2::rat) powi ilog2 x \<le> x \<and> x < 2 powi (ilog2 x + 1)"
proof (cases "1 \<le> x")
  case True
  then have n: "0 < \<lfloor>x\<rfloor>" by simp
  have "of_int \<lfloor>x\<rfloor> \<le> x" by simp
  moreover have "x < of_int (\<lfloor>x\<rfloor> + 1)" by linarith
  moreover have "of_int (\<lfloor>x\<rfloor> + 1) \<le> (2::rat) powi bitlen \<lfloor>x\<rfloor>"
  proof -
    from bitlen_bounds [OF n] have "\<lfloor>x\<rfloor> + 1 \<le> 2 ^ nat (bitlen \<lfloor>x\<rfloor>)" by auto
    then have "(of_int (\<lfloor>x\<rfloor> + 1) :: rat) \<le> of_int (2 ^ nat (bitlen \<lfloor>x\<rfloor>))"
      by (simp only: of_int_le_iff)
    then show ?thesis using bitlen_nonneg [of "\<lfloor>x\<rfloor>"] by (simp add: power_int_def)
  qed
  ultimately show ?thesis
    using bitlen_rat_bounds(1) [OF n] True by (simp add: ilog2_def) linarith
next
  case False
  with assms have y: "1 < 1 / x" by simp
  define m where "m = \<lceil>1 / x\<rceil> - 1"
  from y have m: "0 < m" unfolding m_def by linarith
  have lt: "of_int m < 1 / x" unfolding m_def by linarith
  have le: "1 / x \<le> of_int (m + 1)" unfolding m_def by simp
  have up: "of_int (m + 1) \<le> (2::rat) powi bitlen m"
  proof -
    from bitlen_bounds [OF m] have "m + 1 \<le> 2 ^ nat (bitlen m)" by auto
    then have "(of_int (m + 1) :: rat) \<le> of_int (2 ^ nat (bitlen m))"
      by (simp only: of_int_le_iff)
    then show ?thesis using bitlen_nonneg [of m] by (simp add: power_int_def)
  qed
  have p: "0 < (2::rat) powi bitlen m" "0 < (2::rat) powi (bitlen m - 1)" by simp_all
  from le up have "1 / x \<le> 2 powi bitlen m" by linarith
  with assms p(1) have lo: "(2::rat) powi (- bitlen m) \<le> x"
    by (simp add: power_int_minus field_simps)
  from bitlen_rat_bounds(1) [OF m] lt have "(2::rat) powi (bitlen m - 1) < 1 / x" by linarith
  with assms p(2) have "x < 1 / (2::rat) powi (bitlen m - 1)"
    by (simp add: field_simps)
  also have "1 / (2::rat) powi (bitlen m - 1) = 2 powi (- (bitlen m - 1))"
    by (simp only: power_int_minus divide_inverse mult_1)
  finally have hi: "x < (2::rat) powi (- (bitlen m - 1))" .
  from lo hi False show ?thesis
    by (simp add: ilog2_def m_def)
qed

lemma round_even_error: "\<bar>of_int (round_even m) - m\<bar> \<le> 1 / 2"
proof -
  define d where "d = m - of_int \<lfloor>m\<rfloor>"
  have d: "0 \<le> d" "d < 1" unfolding d_def by linarith+
  have "of_int (round_even m) - m
          = (if d < 1 / 2 then - d else if 1 / 2 < d then 1 - d
             else if even \<lfloor>m\<rfloor> then - d else 1 - d)"
    by (simp add: round_even_def Let_def d_def)
  with d show ?thesis
    by (simp add: abs_if split: if_splits)
qed

lemma round_even_of_int: "round_even (of_int j) = j"
  by (simp add: round_even_def)

lemma fl_error:
  assumes "x \<noteq> 0"
  shows "\<bar>fl x - x\<bar> \<le> 2 powi (ilog2 \<bar>x\<bar> - 53)"
proof -
  define s where "s = (2::rat) powi (ilog2 \<bar>x\<bar> - 52)"
  define n where "n = round_even (\<bar>x\<bar> / s)"
  have s: "0 < s" by (simp add: s_def)
  have f: "fl x = sgn x * of_int n * s"
    using assms by (simp add: fl_def Let_def s_def n_def)
  have "x = sgn x * (\<bar>x\<bar> / s) * s"
    using s by (simp add: sgn_if)
  with f have "fl x - x = sgn x * (of_int n - \<bar>x\<bar> / s) * s"
    by (simp add: algebra_simps)
  then have "\<bar>fl x - x\<bar> = \<bar>of_int n - \<bar>x\<bar> / s\<bar> * s"
    using assms s by (simp add: abs_mult abs_sgn_eq)
  also have "\<dots> \<le> 1 / 2 * s"
    using round_even_error [of "\<bar>x\<bar> / s"] s unfolding n_def
    by (intro mult_right_mono) simp_all
  also have "1 / 2 * s = 2 powi (ilog2 \<bar>x\<bar> - 53)"
    by (simp add: s_def power_int_diff)
  finally show ?thesis .
qed

lemma fl_of_int:
  assumes "\<bar>k\<bar> \<le> 2 ^ 53"
  shows "fl (of_int k) = of_int k"
proof (cases "k = 0")
  case True
  then show ?thesis by (simp add: fl_def)
next
  case False
  define e where "e = ilog2 \<bar>of_int k\<bar>"
  from False have pos: "(0::rat) < \<bar>of_int k\<bar>" by simp
  from False have one: "(1::rat) \<le> \<bar>of_int k\<bar>"
    by (metis abs_ge_zero less_le of_int_0 of_int_abs of_int_le_iff of_int_1 zero_less_abs_iff int_one_le_iff_zero_less)
  have e0: "0 \<le> e"
    using one bitlen_nonneg [of "\<lfloor>\<bar>of_int k :: rat\<bar>\<rfloor>"] bitlen_eq_zero_iff [of "\<lfloor>\<bar>of_int k :: rat\<bar>\<rfloor>"]
    unfolding e_def ilog2_def by (simp add: less_le)
  from ilog2_bounds [OF pos] have "(2::rat) powi e \<le> \<bar>of_int k\<bar>" by (simp add: e_def)
  also from assms have "\<bar>of_int k :: rat\<bar> \<le> 2 ^ 53"
    by (metis of_int_abs of_int_le_iff of_int_numeral of_int_power)
  finally have "(2::rat) powi e \<le> 2 ^ 53" .
  then have "(2::rat) ^ nat e \<le> 2 ^ 53" using e0 by (simp only: power_int_def if_True)
  then have "nat e \<le> 53" by (subst (asm) power_increasing_iff) simp_all
  then have e53: "e \<le> 53" by simp
  show ?thesis
  proof (cases "e = 53")
    case True
    define s where "s = (2::rat) powi (e - 52)"
    from True have s2: "s = 2" by (simp add: s_def)
    from ilog2_bounds [OF pos] True have "(2::rat) ^ 53 \<le> \<bar>of_int k\<bar>"
      by (simp add: e_def [symmetric])
    with \<open>\<bar>of_int k :: rat\<bar> \<le> 2 ^ 53\<close> have a: "\<bar>of_int k :: rat\<bar> = 2 ^ 53" by linarith
    then have "\<bar>of_int k :: rat\<bar> / s = of_int (2 ^ 52)" by (simp add: s2)
    then have "round_even (\<bar>of_int k :: rat\<bar> / s) = 2 ^ 52"
      by (simp only: round_even_of_int)
    then have "fl (of_int k) = sgn (of_int k) * of_int (2 ^ 52) * s"
      using False by (simp add: fl_def Let_def s_def e_def)
    also have "\<dots> = sgn (of_int k) * \<bar>of_int k :: rat\<bar>"
      by (simp add: a s2)
    also have "\<dots> = of_int k" by (simp add: sgn_if)
    finally show ?thesis .
  next
    case False
    with e53 have e52: "e \<le> 52" by simp
    define j where "j = \<bar>k\<bar> * 2 ^ nat (52 - e)"
    define s where "s = (2::rat) powi (e - 52)"
    have sinv: "s = 1 / 2 ^ nat (52 - e)"
    proof -
      have "e - 52 = - int (nat (52 - e))" using e52 by simp
      then have "s = (2::rat) powi (- int (nat (52 - e)))" by (simp only: s_def)
      then show ?thesis by (simp only: power_int_minus power_int_of_nat inverse_eq_divide)
    qed
    have "\<bar>of_int k :: rat\<bar> / s = of_int j"
      by (simp add: sinv j_def)
    then have "round_even (\<bar>of_int k :: rat\<bar> / s) = j"
      by (simp only: round_even_of_int)
    then have "fl (of_int k) = sgn (of_int k) * of_int j * s"
      using \<open>k \<noteq> 0\<close> by (simp add: fl_def Let_def s_def e_def)
    also have "\<dots> = sgn (of_int k) * \<bar>of_int k :: rat\<bar>"
      by (simp add: sinv j_def)
    also have "\<dots> = of_int k" by (simp add: sgn_if)
    finally show ?thesis .
  qed
qed

section \<open>Evaluating numbers\<close>

text \<open>Rules with which the simplifier computes \<open>fl\<close> and the floor and ceiling of a
  quotient of numerals.\<close>

lemma floor_rat_numeral: "\<lfloor>numeral a / numeral b :: rat\<rfloor> = numeral a div numeral b"
  by (metis floor_divide_of_int_eq of_int_numeral)
lemma floor_rat_neg_numeral: "\<lfloor>- (numeral a / numeral b) :: rat\<rfloor> = - numeral a div numeral b"
  by (metis divide_minus_left floor_divide_of_int_eq of_int_neg_numeral of_int_numeral)
lemma floor_rat_one: "\<lfloor>1 / numeral b :: rat\<rfloor> = 1 div numeral b"
  by (metis floor_divide_of_int_eq of_int_1 of_int_numeral)
lemma floor_rat_neg_one: "\<lfloor>- (1 / numeral b) :: rat\<rfloor> = - 1 div numeral b"
  by (metis divide_minus_left floor_divide_of_int_eq of_int_minus of_int_1 of_int_numeral)
lemmas floor_rat = floor_rat_numeral floor_rat_neg_numeral floor_rat_one floor_rat_neg_one
lemma ceiling_rat_numeral: "\<lceil>numeral a / numeral b :: rat\<rceil> = - (- numeral a div numeral b)"
  unfolding ceiling_def by (simp add: floor_rat)
lemma ceiling_rat_neg_numeral: "\<lceil>- (numeral a / numeral b) :: rat\<rceil> = - (numeral a div numeral b)"
  unfolding ceiling_def by (simp add: floor_rat)
lemma ceiling_rat_one: "\<lceil>1 / numeral b :: rat\<rceil> = - (- 1 div numeral b)"
  unfolding ceiling_def by (simp add: floor_rat)
lemma ceiling_rat_neg_one: "\<lceil>- (1 / numeral b) :: rat\<rceil> = - (1 div numeral b)"
  unfolding ceiling_def by (simp add: floor_rat)
lemmas ceiling_rat = ceiling_rat_numeral ceiling_rat_neg_numeral ceiling_rat_one ceiling_rat_neg_one
lemma bitlen_pos: "0 < n \<Longrightarrow> bitlen n = bitlen (n div 2) + 1"
  by (subst compute_bitlen) simp
lemmas fl_eval = fl_def ilog2_def round_even_def Let_def bitlen_pos floor_rat ceiling_rat
lemmas palette_eval = palette_color_def HSVtoRGB_def js_int_def js_sub_def fl_eval digits.simps

section \<open>The palette\<close>

lemma palette_color_9: "palette_color 9 = ''rgb(122,204,155)''" by (simp add: palette_eval)
lemma palette_color_8: "palette_color 8 = ''rgb(144,204,122)''" by (simp add: palette_eval)
lemma palette_color_7: "palette_color 7 = ''rgb(198,204,122)''" by (simp add: palette_eval)
lemma palette_color_6: "palette_color 6 = ''rgb(204,155,122)''" by (simp add: palette_eval)
lemma palette_color_5: "palette_color 5 = ''rgb(204,122,144)''" by (simp add: palette_eval)
lemma palette_color_4: "palette_color 4 = ''rgb(204,122,198)''" by (simp add: palette_eval)
lemma palette_color_3: "palette_color 3 = ''rgb(155,122,204)''" by (simp add: palette_eval)
lemma palette_color_2: "palette_color 2 = ''rgb(122,144,204)''" by (simp add: palette_eval)
lemma palette_color_1: "palette_color 1 = ''rgb(122,198,204)''" by (simp add: palette_eval)
lemmas palette_colors = palette_color_9 palette_color_8 palette_color_7 palette_color_6
  palette_color_5 palette_color_4 palette_color_3 palette_color_2 palette_color_1

lemma initial_colors_unfold:
  "initial_colors = map palette_color [9, 8, 7, 6, 5, 4, 3, 2, 1]"
  by (simp add: initial_colors_def palette_loop.simps)

lemma initial_colors_eq:
  "initial_colors =
     [''rgb(122,204,155)'', ''rgb(144,204,122)'', ''rgb(198,204,122)'', ''rgb(204,155,122)'',
      ''rgb(204,122,144)'', ''rgb(204,122,198)'', ''rgb(155,122,204)'', ''rgb(122,144,204)'',
      ''rgb(122,198,204)'']"
  by (simp only: initial_colors_unfold list.map palette_colors)

text \<open>
  Claim C4. The palette is what the loop at the end of the script leaves in
  \<open>GraphBuilderHost.colors\<close>: for \<open>i\<close> from 9 down to 1 the string that \<open>HSVtoRGB\<close> returns
  for the hue \<open>i / 9 + .4\<close>, the saturation \<open>.4\<close> and the value \<open>.8\<close>, each channel being
  the floor of the component times 255. In double arithmetic these are the nine strings
  below; they are pairwise different.
\<close>

theorem palette_nine_distinct:
  "initial_colors = map palette_color [9, 8, 7, 6, 5, 4, 3, 2, 1]
   \<and> initial_colors =
       [''rgb(122,204,155)'', ''rgb(144,204,122)'', ''rgb(198,204,122)'', ''rgb(204,155,122)'',
        ''rgb(204,122,144)'', ''rgb(204,122,198)'', ''rgb(155,122,204)'', ''rgb(122,144,204)'',
        ''rgb(122,198,204)'']
   \<and> length initial_colors = 9 \<and> distinct initial_colors"
proof -
  have "length initial_colors = 9"
    by (simp add: initial_colors_eq)
  moreover have "distinct initial_colors"
    by (simp add: initial_colors_eq)
  ultimately show ?thesis
    using initial_colors_unfold initial_colors_eq by blast
qed

section \<open>Allocating colours\<close>

lemma GraphBuilderHost_empty: "colors pg = [] \<Longrightarrow> GraphBuilderHost pg k = (None, pg)"
  by (simp add: GraphBuilderHost_def)

lemma GraphBuilderHost_pop:
  assumes "colors pg \<noteq> []"
  shows "\<exists>h pg'. GraphBuilderHost pg k = (Some h, pg') \<and> host_color h = last (colors pg)
           \<and> colors pg' = butlast (colors pg)
           \<and> add_disabled pg' = (add_disabled pg \<or> length (colors pg) = 1)"
  using assms by (auto simp: GraphBuilderHost_def Let_def)

lemma new_hosts_exhaust:
  "length ks = length (colors pg) \<Longrightarrow> ks \<noteq> [] \<Longrightarrow>
     colors (snd (new_hosts pg ks)) = [] \<and> add_disabled (snd (new_hosts pg ks))"
proof (induction ks arbitrary: pg)
  case Nil
  then show ?case by simp
next
  case (Cons k ks)
  then have ne: "colors pg \<noteq> []" by auto
  from GraphBuilderHost_pop [OF ne, of k] obtain h pg1 where
    g: "GraphBuilderHost pg k = (Some h, pg1)" and c: "colors pg1 = butlast (colors pg)"
    and d: "add_disabled pg1 = (add_disabled pg \<or> length (colors pg) = 1)"
    by blast
  show ?case
  proof (cases ks)
    case Nil
    with Cons.prems have "length (colors pg) = 1" by simp
    with g c d Nil show ?thesis
      by (cases "colors pg") (auto simp: Let_def)
  next
    case (Cons k' ks')
    with Cons.prems c have "length ks = length (colors pg1)" "ks \<noteq> []" by auto
    from Cons.IH [OF this] g show ?thesis
      by (auto simp: Let_def split: prod.splits)
  qed
qed

text \<open>
  Claim C5. Making a host pops one colour off the shared stack. With an empty stack the
  constructor returns at once: no colour is taken, the page is as before, and the host is
  left without colour, square and line. Nine hosts made in a row from a stack of nine
  colours leave the stack empty and the \<open>.add\<close> button disabled, and a tenth attempt
  changes nothing.
\<close>

theorem allocate_pops_and_disables:
  "(colors pg = [] \<longrightarrow> GraphBuilderHost pg k = (None, pg))
   \<and> (colors pg \<noteq> [] \<longrightarrow>
        (\<exists>h pg'. GraphBuilderHost pg k = (Some h, pg') \<and> host_color h = last (colors pg)
           \<and> colors pg' = butlast (colors pg)))
   \<and> (length (colors pg) = 9 \<and> length ks = 9 \<longrightarrow>
        colors (snd (new_hosts pg ks)) = [] \<and> add_disabled (snd (new_hosts pg ks))
        \<and> GraphBuilderHost (snd (new_hosts pg ks)) k = (None, snd (new_hosts pg ks)))"
proof (intro conjI impI)
  assume "colors pg = []"
  then show "GraphBuilderHost pg k = (None, pg)" by (rule GraphBuilderHost_empty)
next
  assume "colors pg \<noteq> []"
  from GraphBuilderHost_pop [OF this, of k]
  show "\<exists>h pg'. GraphBuilderHost pg k = (Some h, pg') \<and> host_color h = last (colors pg)
           \<and> colors pg' = butlast (colors pg)"
    by blast
next
  assume a: "length (colors pg) = 9 \<and> length ks = 9"
  then have "length ks = length (colors pg)" "ks \<noteq> []" by auto
  from new_hosts_exhaust [OF this]
  show "colors (snd (new_hosts pg ks)) = []" "add_disabled (snd (new_hosts pg ks))"
    "GraphBuilderHost (snd (new_hosts pg ks)) k = (None, snd (new_hosts pg ks))"
    by (simp_all add: GraphBuilderHost_empty)
qed

theorem allocate_pops_and_disables_witness:
  "length (colors \<lparr>colors = initial_colors, add_disabled = False, add_background = ''white'',
             surface = [], next_elem = 0\<rparr>) = 9
   \<and> last (colors \<lparr>colors = initial_colors, add_disabled = False, add_background = ''white'',
             surface = [], next_elem = 0\<rparr>) = ''rgb(122,198,204)''
   \<and> (\<exists>h pg'. GraphBuilderHost \<lparr>colors = initial_colors, add_disabled = False,
              add_background = ''white'', surface = [], next_elem = 0\<rparr> 9 = (Some h, pg')
          \<and> host_color h = last (colors \<lparr>colors = initial_colors, add_disabled = False,
              add_background = ''white'', surface = [], next_elem = 0\<rparr>)
          \<and> colors pg' = butlast (colors \<lparr>colors = initial_colors, add_disabled = False,
              add_background = ''white'', surface = [], next_elem = 0\<rparr>))
   \<and> (colors (snd (new_hosts \<lparr>colors = initial_colors, add_disabled = False,
          add_background = ''white'', surface = [], next_elem = 0\<rparr> [0, 1, 2, 3, 4, 5, 6, 7, 8])) = []
   \<and> add_disabled (snd (new_hosts \<lparr>colors = initial_colors, add_disabled = False,
          add_background = ''white'', surface = [], next_elem = 0\<rparr> [0, 1, 2, 3, 4, 5, 6, 7, 8]))
   \<and> GraphBuilderHost (snd (new_hosts \<lparr>colors = initial_colors, add_disabled = False,
          add_background = ''white'', surface = [], next_elem = 0\<rparr> [0, 1, 2, 3, 4, 5, 6, 7, 8])) 9
       = (None, snd (new_hosts \<lparr>colors = initial_colors, add_disabled = False,
          add_background = ''white'', surface = [], next_elem = 0\<rparr> [0, 1, 2, 3, 4, 5, 6, 7, 8])))"
proof -
  let ?pg = "\<lparr>colors = initial_colors, add_disabled = False, add_background = ''white'',
              surface = [], next_elem = 0\<rparr>"
  let ?ks = "[0, 1, 2, 3, 4, 5, 6, 7, 8] :: int list"
  have ne: "colors ?pg \<noteq> []"
    by (simp add: initial_colors_eq)
  have len: "length (colors ?pg) = 9 \<and> length ?ks = 9"
    by (simp add: initial_colors_eq)
  have l: "last (colors ?pg) = ''rgb(122,198,204)''"
    by (simp add: initial_colors_eq)
  note inst = allocate_pops_and_disables [of ?pg 9 ?ks]
  note first = mp [OF conjunct1 [OF conjunct2 [OF inst]] ne]
  note nine = mp [OF conjunct2 [OF conjunct2 [OF inst]] len]
  show ?thesis
    by (rule conjI [OF conjunct1 [OF len] conjI [OF l conjI [OF first nine]]])
qed

section \<open>Hidden hosts\<close>

lemmas keys_eval = getHiddenHosts_def set_key_def array_index_def is_digit_def
  digit_value_def has_value_def Object_prototype_def

lemma set_insert_index: "set (insert_index n h ks) = insert h (set ks)"
  by (induction ks) (auto split: option.splits)

lemma distinct_insert_index:
  "h \<notin> set ks \<Longrightarrow> distinct ks \<Longrightarrow> distinct (insert_index n h ks)"
  by (induction ks) (auto simp: set_insert_index split: option.splits)

lemma set_set_key:
  "set (set_key ks h) = (if h = ''__proto__'' then set ks else insert h (set ks))"
  by (auto simp: set_key_def set_insert_index split: option.splits)

lemma distinct_set_key: "distinct ks \<Longrightarrow> distinct (set_key ks h)"
  by (auto simp: set_key_def distinct_insert_index split: option.splits)

lemma set_fold_set_key:
  "set (fold (\<lambda>host ks. set_key ks host) hs ks) = set ks \<union> (set hs - {''__proto__''})"
  by (induction hs arbitrary: ks) (auto simp: set_set_key split: if_splits)

lemma distinct_fold_set_key:
  "distinct ks \<Longrightarrow> distinct (fold (\<lambda>host ks. set_key ks host) hs ks)"
  by (induction hs arbitrary: ks) (simp_all add: distinct_set_key)

lemma set_fold_views:
  "set (fold (\<lambda>view ks. fold (\<lambda>host ks. set_key ks host) (view_hidden view) ks) vs ks)
     = set ks \<union> ((\<Union>v\<in>set vs. set (view_hidden v)) - {''__proto__''})"
  by (induction vs arbitrary: ks) (auto simp: set_fold_set_key)

lemma distinct_fold_views:
  "distinct ks \<Longrightarrow>
     distinct (fold (\<lambda>view ks. fold (\<lambda>host ks. set_key ks host) (view_hidden view) ks) vs ks)"
  by (induction vs arbitrary: ks) (auto simp: distinct_fold_set_key)

text \<open>The keys of the result are the hosts that some view hides, apart from one named
  \<open>__proto__\<close>, and no key is there twice.\<close>

lemma set_getHiddenHosts:
  "set (getHiddenHosts g) = (\<Union>v\<in>set (views g). set (view_hidden v)) - {''__proto__''}"
  by (simp add: getHiddenHosts_def set_fold_views)

lemma distinct_getHiddenHosts: "distinct (getHiddenHosts g)"
  by (simp add: getHiddenHosts_def distinct_fold_views)

lemma count_list_distinct: "distinct xs \<Longrightarrow> x \<in> set xs \<Longrightarrow> count_list xs x = 1"
  by (induction xs) auto

lemma count_getHiddenHosts:
  "count_list (getHiddenHosts g) h
     = (if h \<noteq> ''__proto__'' \<and> (\<exists>v\<in>set (views g). h \<in> set (view_hidden v)) then 1 else 0)"
proof (cases "h \<in> set (getHiddenHosts g)")
  case True
  then have "count_list (getHiddenHosts g) h = 1"
    using distinct_getHiddenHosts by (simp add: count_list_distinct)
  with True show ?thesis by (auto simp: set_getHiddenHosts)
next
  case False
  then have "count_list (getHiddenHosts g) h = 0"
    by (simp add: count_list_0_iff)
  with False show ?thesis by (auto simp: set_getHiddenHosts)
qed

text \<open>
  Claim C6 says that \<open>getHiddenHosts\<close> returns exactly the union of the hosts the views
  hide, each once. The code keeps the set in a plain object, and the assignment
  \<open>hiddenHosts["__proto__"] = true\<close> adds no key: where two views both hide the host
  \<open>H\<close> and one of them hides a host named \<open>__proto__\<close>, the result has \<open>H\<close> once, as
  claimed, but not \<open>__proto__\<close>, which is in the union.
\<close>

theorem getHiddenHosts_omits_proto:
  "getHiddenHosts
     \<lparr>views = [\<lparr>view_hosts = [''__proto__'', ''H''], view_hidden = [''__proto__'', ''H''],
                 view_width = NaN\<rparr>,
               \<lparr>view_hosts = [''H'', ''b''], view_hidden = [''H''], view_width = NaN\<rparr>],
      hostPermutation = None, hiddenHosts = None\<rparr> = [''H'']
   \<and> (\<Union>v\<in>set (views
         \<lparr>views = [\<lparr>view_hosts = [''__proto__'', ''H''], view_hidden = [''__proto__'', ''H''],
                     view_width = NaN\<rparr>,
                   \<lparr>view_hosts = [''H'', ''b''], view_hidden = [''H''], view_width = NaN\<rparr>],
          hostPermutation = None, hiddenHosts = None\<rparr>). set (view_hidden v))
       = {''__proto__'', ''H''}"
  by (auto simp: keys_eval)

section \<open>getViews\<close>

lemma mutate_other: "b \<noteq> a \<Longrightarrow> mutate a f st ! b = st ! b"
  by (simp add: mutate_def)

lemma length_mutate: "length (mutate a f st) = length st"
  by (simp add: mutate_def)

lemma fold_mutate_other: "b \<noteq> a \<Longrightarrow> fold (mutate a) fs st ! b = st ! b"
  by (induction fs arbitrary: st) (simp_all add: mutate_other)

text \<open>
  Claim C9. \<open>getViews\<close> returns a new array that holds the views of the internal list in
  the same order. It is another array than the internal one, so whatever the caller does
  to it afterwards, in any number of steps, the internal list stays as it was.
\<close>

theorem getViews_copy:
  assumes "this_views < length st" and "getViews st this_views = (a, st')"
  shows "st' ! a = st ! this_views \<and> a \<noteq> this_views \<and> a < length st'
         \<and> st' ! this_views = st ! this_views
         \<and> fold (mutate a) fs st' ! this_views = st ! this_views"
proof -
  from assms have a: "a = length st" and st': "st' = st @ [st ! this_views]"
    by (auto simp: getViews_def slice_def)
  with assms(1) have ne: "this_views \<noteq> a" by simp
  from a st' assms(1) have "st' ! a = st ! this_views" "st' ! this_views = st ! this_views"
    by (simp_all add: nth_append)
  moreover from this(2) fold_mutate_other [OF ne, of fs st']
  have "fold (mutate a) fs st' ! this_views = st ! this_views" by simp
  ultimately show ?thesis using ne a st' by simp
qed

theorem getViews_copy_witness:
  "getViews [[''v1'', ''v2'']] 0 = (1, [[''v1'', ''v2''], [''v1'', ''v2'']])
   \<and> fold (mutate 1) [\<lambda>xs. xs @ [''v3''], rev, tl] [[''v1'', ''v2''], [''v1'', ''v2'']]
       = [[''v1'', ''v2''], [''v2'', ''v1'']]
   \<and> fold (mutate 1) [\<lambda>xs. xs @ [''v3''], rev, tl] [[''v1'', ''v2''], [''v1'', ''v2'']] ! 0
       = [[''v1'', ''v2'']] ! 0"
proof -
  have g: "getViews [[''v1'', ''v2'']] 0 = (1, [[''v1'', ''v2''], [''v1'', ''v2'']])"
    by (simp add: getViews_def slice_def)
  have "(0::nat) < length [[''v1'', ''v2'']]" by simp
  from getViews_copy [OF this g, of "[\<lambda>xs. xs @ [''v3''], rev, tl]"] g
  show ?thesis by (simp add: mutate_def)
qed

section \<open>The singleton\<close>

lemma Global_throws: "Global_instance ps = Some r \<Longrightarrow> Global ps = Inl Exception"
  by (simp add: Global_def)

lemma getInstance_registered: "Global_instance ps = Some r \<Longrightarrow> getInstance ps = Inr (r, ps)"
  by (simp add: getInstance_def)

lemma getInstance_times_registered:
  "Global_instance ps = Some r \<Longrightarrow> getInstance_times n ps = Inr (replicate n r, ps)"
  by (induction n) (simp_all add: getInstance_registered)

lemma getInstance_first:
  "Global_instance ps = None \<Longrightarrow>
     getInstance ps =
       Inr (length (made ps),
            ps\<lparr>made := made ps @ [\<lparr>views = [], hostPermutation = None, hiddenHosts = None\<rparr>],
               Global_instance := Some (length (made ps))\<rparr>)"
  by (simp add: getInstance_def Global_def)

text \<open>
  Claim C8 says that the constructor throws in every state in which an instance exists, and
  that \<open>getInstance\<close> always returns the one instance. The constructor tests
  \<open>Global.instance\<close>, which only \<open>getInstance\<close> sets: after a first direct construction
  the field is still \<open>null\<close>, a second direct construction returns a second object, and
  \<open>getInstance\<close> makes another one rather than return the first.
\<close>

theorem Global_second_construction_counterexample:
  "Global initial_process
     = Inr (0, \<lparr>made = [\<lparr>views = [], hostPermutation = None, hiddenHosts = None\<rparr>],
                Global_instance = None\<rparr>)
   \<and> Global \<lparr>made = [\<lparr>views = [], hostPermutation = None, hiddenHosts = None\<rparr>],
              Global_instance = None\<rparr>
     = Inr (1, \<lparr>made = [\<lparr>views = [], hostPermutation = None, hiddenHosts = None\<rparr>,
                        \<lparr>views = [], hostPermutation = None, hiddenHosts = None\<rparr>],
                Global_instance = None\<rparr>)
   \<and> getInstance \<lparr>made = [\<lparr>views = [], hostPermutation = None, hiddenHosts = None\<rparr>],
              Global_instance = None\<rparr>
     = Inr (1, \<lparr>made = [\<lparr>views = [], hostPermutation = None, hiddenHosts = None\<rparr>,
                        \<lparr>views = [], hostPermutation = None, hiddenHosts = None\<rparr>],
                Global_instance = Some 1\<rparr>)"
  by (simp add: Global_def getInstance_def initial_process_def)

text \<open>
  Claim C8, amended. While \<open>Global.instance\<close> is set the constructor throws and
  \<open>getInstance\<close> returns the registered instance, leaving the state as it is. While it is
  not set, \<open>getInstance\<close> makes one object, registers it and returns it. So any number of
  calls of \<open>getInstance\<close> from the start return the same object, the only one made, and
  the constructor throws from then on.
\<close>

theorem singleton_through_getInstance:
  "(Global_instance ps = Some r \<longrightarrow> Global ps = Inl Exception \<and> getInstance ps = Inr (r, ps))
   \<and> (Global_instance ps = None \<longrightarrow>
        (\<exists>ps'. getInstance ps = Inr (length (made ps), ps')
           \<and> Global_instance ps' = Some (length (made ps))
           \<and> length (made ps') = length (made ps) + 1))
   \<and> (0 < n \<longrightarrow>
        (\<exists>ps'. getInstance_times n initial_process = Inr (replicate n 0, ps')
           \<and> length (made ps') = 1 \<and> Global_instance ps' = Some 0
           \<and> Global ps' = Inl Exception))"
proof (intro conjI impI)
  assume "Global_instance ps = Some r"
  then show "Global ps = Inl Exception" "getInstance ps = Inr (r, ps)"
    by (simp_all add: Global_throws getInstance_registered)
next
  assume "Global_instance ps = None"
  from getInstance_first [OF this]
  show "\<exists>ps'. getInstance ps = Inr (length (made ps), ps')
           \<and> Global_instance ps' = Some (length (made ps))
           \<and> length (made ps') = length (made ps) + 1"
    by simp
next
  assume "0 < n"
  then obtain m where n: "n = Suc m" by (cases n) auto
  let ?ps = "\<lparr>made = [\<lparr>views = [], hostPermutation = None, hiddenHosts = None\<rparr>],
               Global_instance = Some 0\<rparr>"
  have first: "getInstance initial_process = Inr (0, ?ps)"
    by (simp add: getInstance_def Global_def initial_process_def)
  have "getInstance_times m ?ps = Inr (replicate m 0, ?ps)"
    by (rule getInstance_times_registered) simp
  with first n have "getInstance_times n initial_process = Inr (replicate n 0, ?ps)"
    by simp
  moreover have "Global ?ps = Inl Exception" by (simp add: Global_def)
  ultimately show "\<exists>ps'. getInstance_times n initial_process = Inr (replicate n 0, ps')
           \<and> length (made ps') = 1 \<and> Global_instance ps' = Some 0
           \<and> Global ps' = Inl Exception"
    by simp
qed

theorem singleton_through_getInstance_witness:
  "getInstance_times 3 initial_process
     = Inr ([0, 0, 0], \<lparr>made = [\<lparr>views = [], hostPermutation = None, hiddenHosts = None\<rparr>],
                         Global_instance = Some 0\<rparr>)
   \<and> Global \<lparr>made = [\<lparr>views = [], hostPermutation = None, hiddenHosts = None\<rparr>],
              Global_instance = Some 0\<rparr> = Inl Exception
   \<and> getInstance \<lparr>made = [\<lparr>views = [], hostPermutation = None, hiddenHosts = None\<rparr>],
              Global_instance = Some 0\<rparr>
       = Inr (0, \<lparr>made = [\<lparr>views = [], hostPermutation = None, hiddenHosts = None\<rparr>],
              Global_instance = Some 0\<rparr>)"
proof -
  let ?ps = "\<lparr>made = [\<lparr>views = [], hostPermutation = None, hiddenHosts = None\<rparr>],
               Global_instance = Some 0\<rparr>"
  have t: "getInstance_times 3 initial_process = Inr ([0, 0, 0], ?ps)"
    by (simp add: numeral_3_eq_3 getInstance_def Global_def initial_process_def)
  have "Global_instance ?ps = Some 0" by simp
  with singleton_through_getInstance [of ?ps 0 3] t show ?thesis
    by simp
qed

section \<open>resize\<close>

lemma resize_Inr:
  assumes "resize g w = Inr r" and "hostPermutation g = Some p"
  shows "\<exists>mw tm m wph hm.
           resize_margin (int (length (perm_hosts p)) - int (length (getHiddenHosts g)))
             (length (views g))
             (js_sub (js_sub (Fin (window_width w)) (Fin (header_outer_width w)))
                (Fin (sidebar_outer_width w))) = (mw, tm, m)
           \<and> resize_width (int (length (perm_hosts p)) - int (length (getHiddenHosts g))) mw m
               = (wph, hm)
           \<and> r = \<lparr>new_views = map (setWidth (getHiddenHosts g) wph hm) (views g),
                   graph_width = mw, returned = hm, middleWidth = mw, totalMargin = tm,
                   widthPerHost = wph\<rparr>"
  using assms by (auto simp: resize_def Let_def split: prod.splits)

lemma resize_Inr_permutation: "resize g w = Inr r \<Longrightarrow> \<exists>p. hostPermutation g = Some p"
  by (auto simp: resize_def Let_def split: option.splits)

lemmas resize_eval = resize_def resize_margin_def resize_width_def keys_eval
  setWidth_def js_int_def js_sub_def js_inf_def HOST_SQUARE_SIZE_def fl_eval

text \<open>
  Claim C1. In \<open>resize\<close> the margin is the quotient of
  \<open>totalMargin = middleWidth - visibleHosts * 25\<close> by \<open>visibleHosts + views.length - 2\<close>.
  When the quotient is below 25, the margin becomes 25, \<open>totalMargin\<close> becomes
  \<open>25 * (visibleHosts + views.length - 2)\<close> and \<open>middleWidth\<close> becomes
  \<open>totalMargin + visibleHosts * 25\<close>; otherwise all three stay. These are the values the
  widths are then computed from: \<open>#graph\<close> gets this \<open>middleWidth\<close>, and the margin
  returned is this one unless exactly one host is visible. The call returns when a host
  permutation is set.
\<close>

theorem resize_margin_clamp:
  assumes "resize g w = Inr r" and "hostPermutation g = Some p"
  defines "visibleHosts \<equiv> int (length (perm_hosts p)) - int (length (getHiddenHosts g))"
  defines "n \<equiv> visibleHosts + int (length (views g)) - 2"
  defines "mw \<equiv> js_sub (js_sub (Fin (window_width w)) (Fin (header_outer_width w)))
                  (Fin (sidebar_outer_width w))"
  defines "tm \<equiv> js_sub mw (js_int (visibleHosts * HOST_SQUARE_SIZE))"
  defines "q \<equiv> js_div tm (js_int n)"
  shows "(if js_lt q (js_int HOST_SQUARE_SIZE)
          then resize_margin visibleHosts (length (views g)) mw
                 = (middleWidth r, totalMargin r, js_int HOST_SQUARE_SIZE)
               \<and> totalMargin r = js_mul (js_int HOST_SQUARE_SIZE) (js_int n)
               \<and> middleWidth r = js_add (totalMargin r) (js_int (visibleHosts * HOST_SQUARE_SIZE))
          else resize_margin visibleHosts (length (views g)) mw = (middleWidth r, totalMargin r, q)
               \<and> totalMargin r = tm \<and> middleWidth r = mw)
         \<and> graph_width r = middleWidth r
         \<and> returned r
             = (if visibleHosts = 1 then Fin 0
                else if js_lt q (js_int HOST_SQUARE_SIZE) then js_int HOST_SQUARE_SIZE else q)"
proof -
  from resize_Inr [OF assms(1,2)] obtain mw' tm' m wph hm where
    rm: "resize_margin visibleHosts (length (views g)) mw = (mw', tm', m)"
    and rw: "resize_width visibleHosts mw' m = (wph, hm)"
    and r: "r = \<lparr>new_views = map (setWidth (getHiddenHosts g) wph hm) (views g),
                 graph_width = mw', returned = hm, middleWidth = mw', totalMargin = tm',
                 widthPerHost = wph\<rparr>"
    unfolding visibleHosts_def mw_def by blast
  show ?thesis
  proof (cases "js_lt q (js_int HOST_SQUARE_SIZE)")
    case True
    with rm have "mw' = js_add tm' (js_int (visibleHosts * HOST_SQUARE_SIZE))"
      "tm' = js_mul (js_int HOST_SQUARE_SIZE) (js_int n)" "m = js_int HOST_SQUARE_SIZE"
      unfolding q_def tm_def n_def by (auto simp: resize_margin_def Let_def)
    with True rm rw r show ?thesis
      by (auto simp: resize_width_def Let_def)
  next
    case False
    with rm have "mw' = mw" "tm' = tm" "m = q"
      unfolding q_def tm_def n_def by (auto simp: resize_margin_def Let_def)
    with False rm rw r show ?thesis
      by (auto simp: resize_width_def Let_def)
  qed
qed

theorem resize_margin_clamp_witness:
  "resize
     \<lparr>views = [\<lparr>view_hosts = [''a'', ''b'', ''c'', ''d''], view_hidden = [], view_width = NaN\<rparr>],
      hostPermutation = Some \<lparr>perm_hosts = [''a'', ''b'', ''c'', ''d''], perm_color = (\<lambda>h. ''gray'')\<rparr>,
      hiddenHosts = None\<rparr>
     \<lparr>window_width = 540, header_outer_width = 200, sidebar_outer_width = 240\<rparr>
   = Inr \<lparr>new_views =
            [\<lparr>view_hosts = [''a'', ''b'', ''c'', ''d''], view_hidden = [], view_width = Fin 175\<rparr>],
          graph_width = Fin 175, returned = Fin 25, middleWidth = Fin 175, totalMargin = Fin 75,
          widthPerHost = Fin 50\<rparr>
   \<and> js_div (js_sub (Fin 100) (js_int (4 * HOST_SQUARE_SIZE))) (js_int 3) = Fin 0
   \<and> js_lt (Fin 0) (js_int HOST_SQUARE_SIZE)
   \<and> js_mul (js_int HOST_SQUARE_SIZE) (js_int 3) = Fin 75
   \<and> js_add (Fin 75) (js_int (4 * HOST_SQUARE_SIZE)) = Fin 175"
proof -
  let ?g = "\<lparr>views = [\<lparr>view_hosts = [''a'', ''b'', ''c'', ''d''], view_hidden = [], view_width = NaN\<rparr>],
      hostPermutation = Some \<lparr>perm_hosts = [''a'', ''b'', ''c'', ''d''], perm_color = (\<lambda>h. ''gray'')\<rparr>,
      hiddenHosts = None\<rparr>"
  let ?w = "\<lparr>window_width = 540, header_outer_width = 200, sidebar_outer_width = 240\<rparr>"
  let ?r = "\<lparr>new_views =
            [\<lparr>view_hosts = [''a'', ''b'', ''c'', ''d''], view_hidden = [], view_width = Fin 175\<rparr>],
          graph_width = Fin 175, returned = Fin 25, middleWidth = Fin 175, totalMargin = Fin 75,
          widthPerHost = Fin 50\<rparr>"
  have e: "resize ?g ?w = Inr ?r"
    by (simp add: resize_eval)
  have p: "hostPermutation ?g
             = Some \<lparr>perm_hosts = [''a'', ''b'', ''c'', ''d''], perm_color = (\<lambda>h. ''gray'')\<rparr>"
    by simp
  have q: "js_div (js_sub (Fin 100) (js_int (4 * HOST_SQUARE_SIZE))) (js_int 3) = Fin 0"
    "js_lt (Fin 0) (js_int HOST_SQUARE_SIZE)"
    "js_mul (js_int HOST_SQUARE_SIZE) (js_int 3) = Fin 75"
    "js_add (Fin 75) (js_int (4 * HOST_SQUARE_SIZE)) = Fin 175"
    by (simp_all add: resize_eval)
  from resize_margin_clamp [OF e p] e q show ?thesis
    by simp
qed

text \<open>
  Claim C2. When exactly one host is visible, as with one view and one visible host,
  \<open>widthPerHost\<close> is \<open>middleWidth\<close> and \<open>resize\<close> returns the margin 0; otherwise
  \<open>widthPerHost\<close> is 25 plus the margin.
\<close>

theorem resize_single_host:
  assumes "resize g w = Inr r" and "hostPermutation g = Some p"
  defines "visibleHosts \<equiv> int (length (perm_hosts p)) - int (length (getHiddenHosts g))"
  shows "(if visibleHosts = 1 then widthPerHost r = middleWidth r \<and> returned r = Fin 0
          else widthPerHost r = js_add (js_int HOST_SQUARE_SIZE) (returned r))
         \<and> graph_width r = middleWidth r"
proof -
  from resize_Inr [OF assms(1,2)] obtain mw' tm' m wph hm where
    rw: "resize_width visibleHosts mw' m = (wph, hm)"
    and r: "r = \<lparr>new_views = map (setWidth (getHiddenHosts g) wph hm) (views g),
                 graph_width = mw', returned = hm, middleWidth = mw', totalMargin = tm',
                 widthPerHost = wph\<rparr>"
    unfolding visibleHosts_def by blast
  then show ?thesis
    by (auto simp: resize_width_def Let_def split: if_splits)
qed

theorem resize_single_host_witness:
  "resize
     \<lparr>views = [\<lparr>view_hosts = [''a'', ''b''], view_hidden = [''b''], view_width = NaN\<rparr>],
      hostPermutation = Some \<lparr>perm_hosts = [''a'', ''b''], perm_color = (\<lambda>h. ''gray'')\<rparr>,
      hiddenHosts = None\<rparr>
     \<lparr>window_width = 1000, header_outer_width = 200, sidebar_outer_width = 240\<rparr>
   = Inr \<lparr>new_views = [\<lparr>view_hosts = [''a'', ''b''], view_hidden = [''b''], view_width = Fin 560\<rparr>],
          graph_width = Fin 560, returned = Fin 0, middleWidth = Fin 560, totalMargin = Fin 535,
          widthPerHost = Fin 560\<rparr>
   \<and> int (length [''a'', ''b''])
       - int (length (getHiddenHosts
           \<lparr>views = [\<lparr>view_hosts = [''a'', ''b''], view_hidden = [''b''], view_width = NaN\<rparr>],
            hostPermutation = Some \<lparr>perm_hosts = [''a'', ''b''], perm_color = (\<lambda>h. ''gray'')\<rparr>,
            hiddenHosts = None\<rparr>)) = 1"
proof -
  let ?g = "\<lparr>views = [\<lparr>view_hosts = [''a'', ''b''], view_hidden = [''b''], view_width = NaN\<rparr>],
      hostPermutation = Some \<lparr>perm_hosts = [''a'', ''b''], perm_color = (\<lambda>h. ''gray'')\<rparr>,
      hiddenHosts = None\<rparr>"
  let ?w = "\<lparr>window_width = 1000, header_outer_width = 200, sidebar_outer_width = 240\<rparr>"
  let ?r = "\<lparr>new_views = [\<lparr>view_hosts = [''a'', ''b''], view_hidden = [''b''], view_width = Fin 560\<rparr>],
          graph_width = Fin 560, returned = Fin 0, middleWidth = Fin 560, totalMargin = Fin 535,
          widthPerHost = Fin 560\<rparr>"
  have e: "resize ?g ?w = Inr ?r"
    by (simp add: resize_eval)
  have p: "hostPermutation ?g = Some \<lparr>perm_hosts = [''a'', ''b''], perm_color = (\<lambda>h. ''gray'')\<rparr>"
    by simp
  have v: "int (length [''a'', ''b'']) - int (length (getHiddenHosts ?g)) = 1"
    by (simp add: keys_eval)
  from resize_single_host [OF e p] e v show ?thesis
    by simp
qed

text \<open>What \<open>resize\<close> does to the views: a host counts for the width of its view when
  \<open>hiddenHosts[h]\<close> reads \<open>undefined\<close>.\<close>

lemma resize_view_widths_read:
  assumes "resize g w = Inr r"
  shows "length (new_views r) = length (views g)
         \<and> (\<forall>i<length (views g).
               new_views r ! i
                 = (views g ! i)\<lparr>view_width :=
                      js_sub
                        (js_mul
                           (js_int (int (length (filter (\<lambda>h. \<not> has_value (getHiddenHosts g) h)
                                                  (view_hosts (views g ! i))))))
                           (widthPerHost r))
                        (returned r)\<rparr>)"
proof -
  from resize_Inr_permutation [OF assms] obtain p where "hostPermutation g = Some p" ..
  from resize_Inr [OF assms this] obtain mw' tm' m wph hm where
    r: "r = \<lparr>new_views = map (setWidth (getHiddenHosts g) wph hm) (views g),
                 graph_width = mw', returned = hm, middleWidth = mw', totalMargin = tm',
                 widthPerHost = wph\<rparr>"
    by blast
  then show ?thesis
    by (simp add: setWidth_def Let_def)
qed

text \<open>For a view none of whose hosts bears the name of a member inherited from
  \<open>Object.prototype\<close>, these are the hosts of the view that no view hides.\<close>

lemma filter_has_value_ordinary:
  assumes "set hs \<inter> set Object_prototype = {}"
  shows "filter (\<lambda>h. \<not> has_value ks h) hs = filter (\<lambda>h. h \<notin> set ks) hs"
  using assms by (induction hs) (auto simp: has_value_def)

lemma resize_view_widths_ordinary:
  assumes "resize g w = Inr r" and "i < length (views g)"
    and "set (view_hosts (views g ! i)) \<inter> set Object_prototype = {}"
  shows "new_views r ! i
           = (views g ! i)\<lparr>view_width :=
                js_sub
                  (js_mul
                     (js_int (int (length (filter (\<lambda>h. h \<notin> set (getHiddenHosts g))
                                            (view_hosts (views g ! i))))))
                     (widthPerHost r))
                  (returned r)\<rparr>"
  using resize_view_widths_read [OF assms(1)] assms(2) filter_has_value_ordinary [OF assms(3)]
  by simp

text \<open>
  Claim C3 says that \<open>resize\<close> gives every view the width
  \<open>k * widthPerHost - hostMargin\<close>, where \<open>k\<close> is the number of the view's hosts that are not
  in the hidden-host set. The code tests \<open>!hiddenHosts[h]\<close> on a plain object, which also
  reads the members the object inherits: with one view of the three hosts \<open>toString\<close>,
  \<open>a\<close> and \<open>b\<close>, none of them hidden, and a middle width of 560, the host \<open>toString\<close> is
  not counted and the view gets the width \<open>2 * 267.5 - 242.5 = 292.5\<close>, where the claim
  gives \<open>3 * 267.5 - 242.5 = 560\<close>.
\<close>

theorem resize_skips_inherited_name:
  "resize
     \<lparr>views = [\<lparr>view_hosts = [''toString'', ''a'', ''b''], view_hidden = [], view_width = NaN\<rparr>],
      hostPermutation =
        Some \<lparr>perm_hosts = [''toString'', ''a'', ''b''], perm_color = (\<lambda>h. ''gray'')\<rparr>,
      hiddenHosts = None\<rparr>
     \<lparr>window_width = 1000, header_outer_width = 200, sidebar_outer_width = 240\<rparr>
   = Inr \<lparr>new_views =
            [\<lparr>view_hosts = [''toString'', ''a'', ''b''], view_hidden = [],
               view_width = Fin (585 / 2)\<rparr>],
          graph_width = Fin 560, returned = Fin (485 / 2), middleWidth = Fin 560,
          totalMargin = Fin 485, widthPerHost = Fin (535 / 2)\<rparr>
   \<and> getHiddenHosts
       \<lparr>views = [\<lparr>view_hosts = [''toString'', ''a'', ''b''], view_hidden = [], view_width = NaN\<rparr>],
        hostPermutation =
          Some \<lparr>perm_hosts = [''toString'', ''a'', ''b''], perm_color = (\<lambda>h. ''gray'')\<rparr>,
        hiddenHosts = None\<rparr> = []
   \<and> js_sub (js_mul (js_int 3) (Fin (535 / 2))) (Fin (485 / 2)) = Fin 560
   \<and> js_sub (js_mul (js_int 2) (Fin (535 / 2))) (Fin (485 / 2)) = Fin (585 / 2)"
  by (simp add: resize_eval)

section \<open>drawSideBar\<close>

lemma hostsPerLine_eq: "hostsPerLine = 8"
  by (simp add: hostsPerLine_def SIDE_BAR_WIDTH_def HOST_SQUARE_SIZE_def floor_rat)

lemma length_attr_y: "length (attr_y c y hs) = length hs"
  by (induction hs arbitrary: c y) (simp_all add: Let_def)

lemma length_attr_x: "length (attr_x x hs) = length hs"
  by (induction hs arbitrary: x) (simp_all add: Let_def)

lemma attr_y_nth:
  "0 \<le> c \<Longrightarrow> c \<le> 8 \<Longrightarrow> i < length hs \<Longrightarrow>
     attr_y c y hs ! i = y + 30 * ((c + int i) div 8)"
proof (induction hs arbitrary: c y i)
  case Nil
  then show ?case by simp
next
  case (Cons h hs)
  show ?case
  proof (cases i)
    case 0
    with Cons.prems show ?thesis
      by (auto simp: Let_def hostsPerLine_eq HOST_SQUARE_SIZE_def)
  next
    case (Suc j)
    with Cons.prems have j: "j < length hs" by simp
    show ?thesis
    proof (cases "c = 8")
      case True
      have "(9 + int j) div 8 = 1 + (1 + int j) div 8" by presburger
      with Cons.IH [of 1 j "y + 30", OF _ _ j] True Suc show ?thesis
        by (simp add: Let_def hostsPerLine_eq HOST_SQUARE_SIZE_def)
    next
      case False
      with Cons.prems have "0 \<le> c + 1" "c + 1 \<le> 8" by auto
      from Cons.IH [OF this j, of y] False Cons.prems Suc show ?thesis
        by (simp add: Let_def hostsPerLine_eq HOST_SQUARE_SIZE_def add.assoc)
    qed
  qed
qed

lemma attr_x_nth_from:
  "0 \<le> k \<Longrightarrow> k \<le> 7 \<Longrightarrow> i < length hs \<Longrightarrow>
     attr_x (30 * k) hs ! i = 30 * ((k + 1 + int i) mod 8)"
proof (induction hs arbitrary: k i)
  case Nil
  then show ?case by simp
next
  case (Cons h hs)
  show ?case
  proof (cases "k = 7")
    case True
    show ?thesis
    proof (cases i)
      case 0
      with True show ?thesis
        by (simp add: Let_def SIDE_BAR_WIDTH_def HOST_SQUARE_SIZE_def)
    next
      case (Suc j)
      with Cons.prems have j: "j < length hs" by simp
      have "(9 + int j) mod 8 = (1 + int j) mod 8" by presburger
      with Cons.IH [of 0 j, OF _ _ j] True Suc show ?thesis
        by (simp add: Let_def SIDE_BAR_WIDTH_def HOST_SQUARE_SIZE_def)
    qed
  next
    case False
    with Cons.prems have k: "0 \<le> k + 1" "k + 1 \<le> 7" by auto
    show ?thesis
    proof (cases i)
      case 0
      with False Cons.prems show ?thesis
        by (simp add: Let_def SIDE_BAR_WIDTH_def HOST_SQUARE_SIZE_def)
    next
      case (Suc j)
      with Cons.prems have j: "j < length hs" by simp
      from Cons.IH [OF k j] False Cons.prems Suc show ?thesis
        by (simp add: Let_def SIDE_BAR_WIDTH_def HOST_SQUARE_SIZE_def algebra_simps)
    qed
  qed
qed

lemma attr_x_nth:
  assumes "i < length hs"
  shows "attr_x SIDE_BAR_WIDTH hs ! i = 30 * (int i mod 8)"
proof (cases hs)
  case Nil
  with assms show ?thesis by simp
next
  case (Cons h hs')
  show ?thesis
  proof (cases i)
    case 0
    with Cons show ?thesis
      by (simp add: Let_def SIDE_BAR_WIDTH_def HOST_SQUARE_SIZE_def)
  next
    case (Suc j)
    with Cons assms have j: "j < length hs'" by simp
    from attr_x_nth_from [of 0 j hs', OF _ _ j] Cons Suc show ?thesis
      by (simp add: Let_def SIDE_BAR_WIDTH_def HOST_SQUARE_SIZE_def add.commute)
  qed
qed

lemma div8_image: "(\<lambda>i. i div 8) ` {..<n} = {..<(n + 7) div (8::nat)}"
proof
  show "(\<lambda>i. i div 8) ` {..<n} \<subseteq> {..<(n + 7) div 8}"
    by auto
  show "{..<(n + 7) div 8} \<subseteq> (\<lambda>i. i div 8) ` {..<n}"
  proof
    fix k assume "k \<in> {..<(n + 7) div 8}"
    then have "8 * k < n" by auto
    moreover have "(8 * k) div 8 = k" by simp
    ultimately show "k \<in> (\<lambda>i. i div 8) ` {..<n}"
      by (metis imageI lessThan_iff)
  qed
qed

lemma card_rows:
  "card ((\<lambda>i. 30 * (int i div 8)) ` {..<n}) = (n + 7) div 8"
proof -
  have "(\<lambda>i. 30 * (int i div 8)) ` {..<n} = (\<lambda>k. 30 * int k) ` ((\<lambda>i. i div 8) ` {..<n})"
    by (auto simp: image_image zdiv_int)
  also have "\<dots> = (\<lambda>k. 30 * int k) ` {..<(n + 7) div 8}"
    by (simp only: div8_image)
  finally have "card ((\<lambda>i. 30 * (int i div 8)) ` {..<n})
                  = card ((\<lambda>k. 30 * int k) ` {..<(n + 7) div 8})"
    by simp
  also have "\<dots> = card {..<(n + 7) div 8}"
    by (rule card_image) (simp add: inj_on_def)
  finally show ?thesis by simp
qed

lemma ceiling_div8: "\<lceil>(of_nat n :: rat) / 8\<rceil> = int ((n + 7) div 8)"
proof -
  have "\<lfloor>(of_int (- int n) :: rat) / of_int 8\<rfloor> = (- int n) div 8"
    by (rule floor_divide_of_int_eq)
  then have "\<lceil>(of_nat n :: rat) / 8\<rceil> = - (- int n div 8)"
    by (simp add: ceiling_def)
  also have "\<dots> = (int n + 7) div 8" by arith
  also have "\<dots> = int ((n + 7) div 8)" by (simp add: zdiv_int)
  finally show ?thesis .
qed

lemma drawSideBar_none: "getHiddenHosts g = [] \<Longrightarrow>
    drawSideBar g sw = Inr \<lparr>hidden_shown = False, hidden_svg = None\<rparr>"
  by (simp add: drawSideBar_def)

lemma drawSideBar_some:
  assumes "getHiddenHosts g \<noteq> []" and "hostPermutation g = Some p"
  shows "drawSideBar g sw =
           Inr \<lparr>hidden_shown = True,
                 hidden_svg =
                   Some \<lparr>svg_width = sw,
                          svg_height =
                            \<lceil>(of_nat (length (getHiddenHosts g)) :: rat) / of_int hostsPerLine\<rceil>
                              * (HOST_SQUARE_SIZE + 5) - 5,
                          squares =
                            map (\<lambda>(host, y, x).
                                   \<lparr>sq_host = host, sq_width = HOST_SQUARE_SIZE,
                                      sq_height = HOST_SQUARE_SIZE, sq_fill = perm_color p host,
                                      sq_x = x, sq_y = y\<rparr>)
                              (zip (getHiddenHosts g)
                                 (zip (attr_y 0 0 (getHiddenHosts g))
                                    (attr_x SIDE_BAR_WIDTH (getHiddenHosts g))))\<rparr>\<rparr>"
  using assms by (simp add: drawSideBar_def Let_def)

lemma squares_nth:
  assumes "i < length hh"
  shows "map (\<lambda>(host, y, x).
               \<lparr>sq_host = host, sq_width = HOST_SQUARE_SIZE, sq_height = HOST_SQUARE_SIZE,
                  sq_fill = c host, sq_x = x, sq_y = y\<rparr>)
           (zip hh (zip (attr_y 0 0 hh) (attr_x SIDE_BAR_WIDTH hh))) ! i
         = \<lparr>sq_host = hh ! i, sq_width = HOST_SQUARE_SIZE, sq_height = HOST_SQUARE_SIZE,
              sq_fill = c (hh ! i), sq_x = 30 * (int i mod 8), sq_y = 30 * (int i div 8)\<rparr>"
  using assms attr_y_nth [of 0 i hh 0] attr_x_nth [of i hh]
  by (simp add: length_attr_y length_attr_x)

text \<open>
  Claim C7. With no hidden host \<open>drawSideBar\<close> hides the section and returns, with no SVG
  and no square laid out. With \<open>N > 0\<close> hidden hosts (and a host permutation to colour
  them) it shows the section and lays out one square per host, in the order of the hidden
  hosts: square \<open>i\<close> is in row \<open>i div hostsPerLine\<close> and column \<open>i mod hostsPerLine\<close>, a
  cell being \<open>HOST_SQUARE_SIZE + 5\<close> pixels wide and high, so a new row starts after every
  \<open>hostsPerLine\<close> squares and the squares are in exactly \<open>ceil(N / hostsPerLine)\<close> rows;
  \<open>hostsPerLine\<close> is \<open>floor((SIDE_BAR_WIDTH + 5) / (HOST_SQUARE_SIZE + 5))\<close>, which is 8.
\<close>

theorem drawSideBar_rows:
  "(getHiddenHosts g = [] \<longrightarrow>
      drawSideBar g sw = Inr \<lparr>hidden_shown = False, hidden_svg = None\<rparr>)
   \<and> (getHiddenHosts g \<noteq> [] \<and> hostPermutation g = Some p \<longrightarrow>
        (\<exists>sv. drawSideBar g sw = Inr \<lparr>hidden_shown = True, hidden_svg = Some sv\<rparr>
           \<and> length (squares sv) = length (getHiddenHosts g)
           \<and> (\<forall>i<length (getHiddenHosts g).
                 sq_host (squares sv ! i) = getHiddenHosts g ! i
                 \<and> sq_fill (squares sv ! i) = perm_color p (getHiddenHosts g ! i)
                 \<and> sq_y (squares sv ! i) = (HOST_SQUARE_SIZE + 5) * (int i div hostsPerLine)
                 \<and> sq_x (squares sv ! i) = (HOST_SQUARE_SIZE + 5) * (int i mod hostsPerLine))
           \<and> int (card (sq_y ` set (squares sv)))
               = \<lceil>(of_nat (length (getHiddenHosts g)) :: rat) / of_int hostsPerLine\<rceil>
           \<and> svg_height sv
               = \<lceil>(of_nat (length (getHiddenHosts g)) :: rat) / of_int hostsPerLine\<rceil>
                   * (HOST_SQUARE_SIZE + 5) - 5))
   \<and> hostsPerLine = \<lfloor>(of_int (SIDE_BAR_WIDTH + 5) :: rat) / of_int (HOST_SQUARE_SIZE + 5)\<rfloor>
   \<and> hostsPerLine = 8"
proof (intro conjI impI)
  assume "getHiddenHosts g = []"
  then show "drawSideBar g sw = Inr \<lparr>hidden_shown = False, hidden_svg = None\<rparr>"
    by (rule drawSideBar_none)
next
  show "hostsPerLine = \<lfloor>(of_int (SIDE_BAR_WIDTH + 5) :: rat) / of_int (HOST_SQUARE_SIZE + 5)\<rfloor>"
    by (rule hostsPerLine_def)
next
  show "hostsPerLine = 8" by (rule hostsPerLine_eq)
next
  assume a: "getHiddenHosts g \<noteq> [] \<and> hostPermutation g = Some p"
  define hh where "hh = getHiddenHosts g"
  define sqs where "sqs = map (\<lambda>(host, y, x).
               \<lparr>sq_host = host, sq_width = HOST_SQUARE_SIZE, sq_height = HOST_SQUARE_SIZE,
                  sq_fill = perm_color p host, sq_x = x, sq_y = y\<rparr>)
           (zip hh (zip (attr_y 0 0 hh) (attr_x SIDE_BAR_WIDTH hh)))"
  define sv where "sv = \<lparr>svg_width = sw,
      svg_height = \<lceil>(of_nat (length hh) :: rat) / of_int hostsPerLine\<rceil> * (HOST_SQUARE_SIZE + 5) - 5,
      squares = sqs\<rparr>"
  from a have d: "drawSideBar g sw = Inr \<lparr>hidden_shown = True, hidden_svg = Some sv\<rparr>"
    unfolding sv_def sqs_def hh_def by (simp add: drawSideBar_some)
  have len: "length sqs = length hh"
    by (simp add: sqs_def length_attr_y length_attr_x)
  have nth: "sqs ! i = \<lparr>sq_host = hh ! i, sq_width = HOST_SQUARE_SIZE, sq_height = HOST_SQUARE_SIZE,
              sq_fill = perm_color p (hh ! i), sq_x = 30 * (int i mod 8),
              sq_y = 30 * (int i div 8)\<rparr>" if "i < length hh" for i
    unfolding sqs_def using that by (rule squares_nth)
  have "sq_y ` set sqs = (\<lambda>i. sq_y (sqs ! i)) ` {..<length hh}"
    by (auto simp: set_conv_nth len image_iff)
  also have "\<dots> = (\<lambda>i. 30 * (int i div 8)) ` {..<length hh}"
    by (rule image_cong) (simp_all add: nth)
  finally have "card (sq_y ` set sqs) = (length hh + 7) div 8"
    by (simp only: card_rows)
  then have rows: "int (card (sq_y ` set sqs)) = \<lceil>(of_nat (length hh) :: rat) / of_int hostsPerLine\<rceil>"
    by (simp add: hostsPerLine_eq ceiling_div8)
  have "length (squares sv) = length hh
        \<and> (\<forall>i<length hh.
              sq_host (squares sv ! i) = hh ! i
              \<and> sq_fill (squares sv ! i) = perm_color p (hh ! i)
              \<and> sq_y (squares sv ! i) = (HOST_SQUARE_SIZE + 5) * (int i div hostsPerLine)
              \<and> sq_x (squares sv ! i) = (HOST_SQUARE_SIZE + 5) * (int i mod hostsPerLine))
        \<and> int (card (sq_y ` set (squares sv)))
            = \<lceil>(of_nat (length hh) :: rat) / of_int hostsPerLine\<rceil>
        \<and> svg_height sv
            = \<lceil>(of_nat (length hh) :: rat) / of_int hostsPerLine\<rceil> * (HOST_SQUARE_SIZE + 5) - 5"
    using len rows by (simp add: sv_def nth hostsPerLine_eq HOST_SQUARE_SIZE_def)
  with d show "\<exists>sv. drawSideBar g sw = Inr \<lparr>hidden_shown = True, hidden_svg = Some sv\<rparr>
           \<and> length (squares sv) = length (getHiddenHosts g)
           \<and> (\<forall>i<length (getHiddenHosts g).
                 sq_host (squares sv ! i) = getHiddenHosts g ! i
                 \<and> sq_fill (squares sv ! i) = perm_color p (getHiddenHosts g ! i)
                 \<and> sq_y (squares sv ! i) = (HOST_SQUARE_SIZE + 5) * (int i div hostsPerLine)
                 \<and> sq_x (squares sv ! i) = (HOST_SQUARE_SIZE + 5) * (int i mod hostsPerLine))
           \<and> int (card (sq_y ` set (squares sv)))
               = \<lceil>(of_nat (length (getHiddenHosts g)) :: rat) / of_int hostsPerLine\<rceil>
           \<and> svg_height sv
               = \<lceil>(of_nat (length (getHiddenHosts g)) :: rat) / of_int hostsPerLine\<rceil>
                   * (HOST_SQUARE_SIZE + 5) - 5"
    unfolding hh_def by blast
qed

theorem drawSideBar_rows_witness:
  "drawSideBar
     \<lparr>views = [\<lparr>view_hosts = [''a'', ''b''], view_hidden = [], view_width = NaN\<rparr>],
      hostPermutation = None, hiddenHosts = None\<rparr> 240
     = Inr \<lparr>hidden_shown = False, hidden_svg = None\<rparr>
   \<and> drawSideBar
     \<lparr>views = [\<lparr>view_hosts = [],
                 view_hidden = [''a'', ''b'', ''c'', ''d'', ''e'', ''f'', ''g'', ''h'', ''i''],
                 view_width = NaN\<rparr>],
      hostPermutation = Some \<lparr>perm_hosts = [], perm_color = (\<lambda>h. ''gray'')\<rparr>,
      hiddenHosts = None\<rparr> 240
     = Inr \<lparr>hidden_shown = True,
            hidden_svg = Some \<lparr>svg_width = 240, svg_height = 55,
              squares =
                map (\<lambda>(h, x, y). \<lparr>sq_host = h, sq_width = 25, sq_height = 25,
                                   sq_fill = ''gray'', sq_x = x, sq_y = y\<rparr>)
                  [(''a'', 0, 0), (''b'', 30, 0), (''c'', 60, 0), (''d'', 90, 0), (''e'', 120, 0),
                   (''f'', 150, 0), (''g'', 180, 0), (''h'', 210, 0), (''i'', 0, 30)]\<rparr>\<rparr>
   \<and> \<lceil>(of_nat 9 :: rat) / of_int hostsPerLine\<rceil> = 2
   \<and> int (card (sq_y ` set
         (map (\<lambda>(h, x, y). \<lparr>sq_host = h, sq_width = 25, sq_height = 25,
                                   sq_fill = ''gray'', sq_x = x, sq_y = y\<rparr>)
                  [(''a'', 0, 0), (''b'', 30, 0), (''c'', 60, 0), (''d'', 90, 0), (''e'', 120, 0),
                   (''f'', 150, 0), (''g'', 180, 0), (''h'', 210, 0), (''i'', 0, 30)]))) = 2"
proof -
  let ?e = "\<lparr>views = [\<lparr>view_hosts = [''a'', ''b''], view_hidden = [], view_width = NaN\<rparr>],
      hostPermutation = None, hiddenHosts = None\<rparr>"
  let ?p = "\<lparr>perm_hosts = [], perm_color = (\<lambda>h. ''gray'')\<rparr>"
  let ?g = "\<lparr>views = [\<lparr>view_hosts = [],
                 view_hidden = [''a'', ''b'', ''c'', ''d'', ''e'', ''f'', ''g'', ''h'', ''i''],
                 view_width = NaN\<rparr>],
      hostPermutation = Some ?p, hiddenHosts = None\<rparr>"
  have h0: "getHiddenHosts ?e = []"
    by (simp add: getHiddenHosts_def)
  have h: "getHiddenHosts ?g = [''a'', ''b'', ''c'', ''d'', ''e'', ''f'', ''g'', ''h'', ''i'']"
    by (simp add: keys_eval)
  have empty: "drawSideBar ?e 240 = Inr \<lparr>hidden_shown = False, hidden_svg = None\<rparr>"
    using drawSideBar_rows [of ?e 240] h0 by blast
  have ne: "getHiddenHosts ?g \<noteq> [] \<and> hostPermutation ?g = Some ?p"
    by (simp add: h)
  have d: "drawSideBar ?g 240
     = Inr \<lparr>hidden_shown = True,
            hidden_svg = Some \<lparr>svg_width = 240, svg_height = 55,
              squares =
                map (\<lambda>(h, x, y). \<lparr>sq_host = h, sq_width = 25, sq_height = 25,
                                   sq_fill = ''gray'', sq_x = x, sq_y = y\<rparr>)
                  [(''a'', 0, 0), (''b'', 30, 0), (''c'', 60, 0), (''d'', 90, 0), (''e'', 120, 0),
                   (''f'', 150, 0), (''g'', 180, 0), (''h'', 210, 0), (''i'', 0, 30)]\<rparr>\<rparr>"
    by (simp add: drawSideBar_def h Let_def hostsPerLine_eq HOST_SQUARE_SIZE_def
        SIDE_BAR_WIDTH_def ceiling_rat)
  have c: "\<lceil>(of_nat 9 :: rat) / of_int hostsPerLine\<rceil> = 2"
    by (simp add: hostsPerLine_eq ceiling_rat)
  from drawSideBar_rows [of ?g 240 ?p] ne obtain sv where
    sv: "drawSideBar ?g 240 = Inr \<lparr>hidden_shown = True, hidden_svg = Some sv\<rparr>"
    and rows: "int (card (sq_y ` set (squares sv)))
                 = \<lceil>(of_nat (length (getHiddenHosts ?g)) :: rat) / of_int hostsPerLine\<rceil>"
    by blast
  from sv d have "squares sv =
      map (\<lambda>(h, x, y). \<lparr>sq_host = h, sq_width = 25, sq_height = 25,
                                   sq_fill = ''gray'', sq_x = x, sq_y = y\<rparr>)
                  [(''a'', 0, 0), (''b'', 30, 0), (''c'', 60, 0), (''d'', 90, 0), (''e'', 120, 0),
                   (''f'', 150, 0), (''g'', 180, 0), (''h'', 210, 0), (''i'', 0, 30)]"
    by (cases sv) simp
  with rows h c have r: "int (card (sq_y ` set
         (map (\<lambda>(h, x, y). \<lparr>sq_host = h, sq_width = 25, sq_height = 25,
                                   sq_fill = ''gray'', sq_x = x, sq_y = y\<rparr>)
                  [(''a'', 0, 0), (''b'', 30, 0), (''c'', 60, 0), (''d'', 90, 0), (''e'', 120, 0),
                   (''f'', 150, 0), (''g'', 180, 0), (''h'', 210, 0), (''i'', 0, 30)]))) = 2"
    by simp
  show ?thesis
    by (rule conjI [OF empty conjI [OF d conjI [OF c r]]])
qed

section \<open>Removing nodes\<close>

lemma node_objs_map: "node_objs (map NodeObj ns) = ns"
  by (induction ns) simp_all

lemma removeNode_absent:
  assumes "\<forall>xs v. v \<notin> set xs \<longrightarrow> Array_remove xs v = xs"
  shows "removeNode Array_remove (h, pg) n
           = (h, pg\<lparr>surface := remove_elems [circle n] (remove_elems (lines n) (surface pg))\<rparr>)"
proof -
  have "HostObj (host_rect h) \<notin> set (map NodeObj (nodes h))" by auto
  with assms have "Array_remove (map NodeObj (nodes h)) (HostObj (host_rect h)) = map NodeObj (nodes h)"
    by blast
  then show ?thesis
    by (simp add: removeNode_def Let_def node_objs_map)
qed

lemma remove_elems_node:
  "remove_elems [circle n] (remove_elems (lines n) sf)
     = filter (\<lambda>e. e \<noteq> circle n \<and> e \<notin> set (lines n)) sf"
  by (induction sf) (auto simp: remove_elems_def)

lemma removeAllNodes_loop_absent:
  assumes "\<forall>xs v. v \<notin> set xs \<longrightarrow> Array_remove xs v = xs"
  shows "removeAllNodes_loop Array_remove i (h, pg) visited
           = Some ((h, pg\<lparr>surface :=
                            fold (\<lambda>n sf. remove_elems [circle n] (remove_elems (lines n) sf))
                              (drop i (nodes h)) (surface pg)\<rparr>),
                   visited @ drop i (nodes h))"
proof (induction "length (nodes h) - i" arbitrary: i pg visited)
  case 0
  then show ?case
    by (subst removeAllNodes_loop.simps) simp
next
  case (Suc k)
  then have i: "i < length (nodes h)" and k: "k = length (nodes h) - Suc i" by auto
  from i have d: "drop i (nodes h) = nodes h ! i # drop (Suc i) (nodes h)"
    by (simp add: Cons_nth_drop_Suc)
  show ?case
    by (subst removeAllNodes_loop.simps)
      (simp add: i removeNode_absent [OF assms] Suc.hyps(1) [OF k] d)
qed

text \<open>
  What \<open>removeNode\<close> does to the node list is what \<open>Array.remove\<close> does with a value
  that is not among the elements of the array, since it is asked to remove the host. With
  an \<open>Array.remove\<close> that then leaves the array as it is, \<open>removeNode\<close> takes the circle and
  the lines of the node off the drawing surface and the node list stays, and
  \<open>removeAllNodes\<close> passes every node to \<open>removeNode\<close>, in order, before it sets the list
  to a new empty one.
\<close>

lemma removeNode_keeps_nodes_if_absent_kept:
  assumes "\<forall>xs v. v \<notin> set xs \<longrightarrow> Array_remove xs v = xs"
  shows "nodes (fst (removeNode Array_remove (h, pg) n)) = nodes h
         \<and> surface (snd (removeNode Array_remove (h, pg) n))
             = filter (\<lambda>e. e \<noteq> circle n \<and> e \<notin> set (lines n)) (surface pg)
         \<and> nodes (fst (addNode h n)) \<noteq> []
         \<and> removeAllNodes Array_remove (h, pg)
             = Some ((h\<lparr>nodes := []\<rparr>,
                      pg\<lparr>surface :=
                           fold (\<lambda>n sf. filter (\<lambda>e. e \<noteq> circle n \<and> e \<notin> set (lines n)) sf)
                             (nodes h) (surface pg)\<rparr>),
                     nodes h)"
proof -
  have "removeAllNodes Array_remove (h, pg)
          = Some ((h\<lparr>nodes := []\<rparr>,
                   pg\<lparr>surface :=
                        fold (\<lambda>n sf. remove_elems [circle n] (remove_elems (lines n) sf))
                          (nodes h) (surface pg)\<rparr>),
                  nodes h)"
    by (simp add: removeAllNodes_def removeAllNodes_loop_absent [OF assms])
  then show ?thesis
    by (simp add: removeNode_absent [OF assms] remove_elems_node addNode_def)
qed

text \<open>
  With an \<open>Array.remove\<close> that splices one element at \<open>indexOf\<close> without a test for
  \<open>-1\<close>, and so takes the last element off when the value is not there, \<open>removeNode\<close>
  drops the last node of the list, whichever node it is given.
\<close>

lemma node_objs_butlast: "node_objs (butlast (map NodeObj ns)) = butlast ns"
  by (simp add: map_butlast [symmetric] node_objs_map)

lemma removeNode_drops_last_if_absent_spliced:
  assumes "\<forall>xs v. v \<notin> set xs \<longrightarrow> Array_remove xs v = butlast xs"
  shows "nodes (fst (removeNode Array_remove (h, pg) n)) = butlast (nodes h)"
proof -
  have "HostObj (host_rect h) \<notin> set (map NodeObj (nodes h))" by auto
  with assms have "Array_remove (map NodeObj (nodes h)) (HostObj (host_rect h))
                     = butlast (map NodeObj (nodes h))"
    by blast
  then show ?thesis
    by (simp add: removeNode_def Let_def node_objs_butlast)
qed

end
